theory Spec2Isabelle
  imports Complex_Main "HOL-Library.AList" "HOL-Library.Sublist" "HOL-Library.Log_Nat"
begin

section \<open>Python values, exceptions and floating point\<close>

text \<open>
  The integration is Python; the model covers \<^verbatim>\<open>custom_components/radiant_smart/api.py\<close>:
  the data point codec, the listener fan-out, the inbound MQTT router and the
  classification of a device's data points into Home Assistant entities.

  Exceptions are values. A function that can raise returns \<open>error + 'a\<close>; a function that
  mutates objects before it raises returns the mutated state together with
  \<open>error option\<close>, since the mutation survives the exception.
\<close>

datatype error =
    KeyError string
  | AttributeError
  | TypeError
  | ValueError
  | OverflowError
  | ZeroDivisionError
  | UnboundLocalError
  | CallbackError string

definition bind_result :: "error + 'a \<Rightarrow> ('a \<Rightarrow> error + 'b) \<Rightarrow> error + 'b" where
  "bind_result r f = (case r of Inl e \<Rightarrow> Inl e | Inr x \<Rightarrow> f x)"

text \<open>
  Wire and display values are JSON numbers or absent: a Python \<^verbatim>\<open>int\<close> (unbounded), a
  Python \<^verbatim>\<open>float\<close> or \<^verbatim>\<open>None\<close>. Strings, booleans, lists and objects are outside the
  model.

  A \<^verbatim>\<open>float\<close> is an IEEE 754 binary64 number: a finite number, modelled by the rational
  it denotes (the two zeros are identified), an infinity or a NaN. \<^verbatim>\<open>json.loads\<close> yields
  all of them. An operation on finite numbers computes the exact result and rounds it
  with \<open>fl\<close>: \<open>rnd\<close> rounds to the nearest multiple of the quantum, ties to the even
  multiple, where the quantum belongs to a 53 bit significand and is never less than
  \<open>2 powi (emin - 52)\<close> (the subnormal numbers); a rounded magnitude of \<open>2 powi emax\<close> or
  more becomes an infinity.
\<close>

definition emax :: int where
  "emax = 1024"

definition emin :: int where
  "emin = - 1022"

datatype pyfloat = Finite rat | PosInf | NegInf | NaN

datatype pyval = PyInt int | PyFloat pyfloat | PyNone

definition expo :: "rat \<Rightarrow> int" where
  \<comment> \<open>the binary exponent of a positive rational: \<open>2 powi expo q \<le> q < 2 powi (expo q + 1)\<close>\<close>
  "expo q = (case quotient_of q of (a, b) \<Rightarrow>
     let d = bitlen a - bitlen b in if 2 powi d \<le> q then d else d - 1)"

definition round_half_even :: "rat \<Rightarrow> int" where
  "round_half_even r = (let f = \<lfloor>r\<rfloor>; d = r - of_int f in
     if d < 1 / 2 then f else if 1 / 2 < d then f + 1 else if even f then f else f + 1)"

definition rnd :: "rat \<Rightarrow> rat" where
  "rnd q = (if q = 0 then 0 else
     let u = 2 powi (max (expo \<bar>q\<bar>) emin - 52)
     in sgn q * of_int (round_half_even (\<bar>q\<bar> / u)) * u)"

definition overflows :: "rat \<Rightarrow> bool" where
  \<comment> \<open>the magnitude is \<open>2 powi emax\<close> or more\<close>
  "overflows r = (r \<noteq> 0 \<and> emax \<le> expo \<bar>r\<bar>)"

definition fl :: "rat \<Rightarrow> pyfloat" where
  "fl q = (let r = rnd q in
     if overflows r then (if 0 < r then PosInf else NegInf) else Finite r)"

fun float_mul :: "pyfloat \<Rightarrow> pyfloat \<Rightarrow> pyfloat" where
  "float_mul NaN y = NaN"
| "float_mul x NaN = NaN"
| "float_mul (Finite a) (Finite b) = fl (a * b)"
| "float_mul (Finite a) PosInf = (if a = 0 then NaN else if 0 < a then PosInf else NegInf)"
| "float_mul (Finite a) NegInf = (if a = 0 then NaN else if 0 < a then NegInf else PosInf)"
| "float_mul PosInf (Finite b) = (if b = 0 then NaN else if 0 < b then PosInf else NegInf)"
| "float_mul NegInf (Finite b) = (if b = 0 then NaN else if 0 < b then NegInf else PosInf)"
| "float_mul PosInf PosInf = PosInf"
| "float_mul PosInf NegInf = NegInf"
| "float_mul NegInf PosInf = NegInf"
| "float_mul NegInf NegInf = PosInf"

fun float_truediv :: "pyfloat \<Rightarrow> pyfloat \<Rightarrow> error + pyfloat" where
  "float_truediv x (Finite b) =
     (if b = 0 then Inl ZeroDivisionError
      else Inr (case x of
          Finite a \<Rightarrow> fl (a / b)
        | PosInf \<Rightarrow> (if 0 < b then PosInf else NegInf)
        | NegInf \<Rightarrow> (if 0 < b then NegInf else PosInf)
        | NaN \<Rightarrow> NaN))"
| "float_truediv (Finite a) y = Inr (case y of NaN \<Rightarrow> NaN | _ \<Rightarrow> Finite 0)"
| "float_truediv x y = Inr NaN"

definition trunc :: "rat \<Rightarrow> int" where
  \<comment> \<open>rounding toward zero\<close>
  "trunc r = (if 0 \<le> r then \<lfloor>r\<rfloor> else \<lceil>r\<rceil>)"

fun py_int :: "pyval \<Rightarrow> error + int" where
  \<comment> \<open>\<^verbatim>\<open>int(x)\<close>\<close>
  "py_int (PyInt i) = Inr i"
| "py_int (PyFloat (Finite r)) = Inr (trunc r)"
| "py_int (PyFloat PosInf) = Inl OverflowError"
| "py_int (PyFloat NegInf) = Inl OverflowError"
| "py_int (PyFloat NaN) = Inl ValueError"
| "py_int PyNone = Inl TypeError"

fun py_float :: "pyval \<Rightarrow> error + pyfloat" where
  \<comment> \<open>\<^verbatim>\<open>float(x)\<close>: an \<^verbatim>\<open>int\<close> too large for a float raises\<close>
  "py_float (PyInt i) =
     (case fl (of_int i) of Finite r \<Rightarrow> Inr (Finite r) | _ \<Rightarrow> Inl OverflowError)"
| "py_float (PyFloat x) = Inr x"
| "py_float PyNone = Inl TypeError"

fun py_mul_int :: "pyval \<Rightarrow> int \<Rightarrow> error + pyval" where
  \<comment> \<open>\<^verbatim>\<open>value * n\<close> for an \<^verbatim>\<open>int\<close> literal \<open>n\<close>: a float operand converts \<open>n\<close> to a float\<close>
  "py_mul_int (PyInt i) n = Inr (PyInt (i * n))"
| "py_mul_int (PyFloat x) n =
     bind_result (py_float (PyInt n)) (\<lambda>y. Inr (PyFloat (float_mul x y)))"
| "py_mul_int PyNone n = Inl TypeError"

definition py_truediv_int :: "pyfloat \<Rightarrow> int \<Rightarrow> error + pyfloat" where
  \<comment> \<open>\<^verbatim>\<open>x / n\<close> for a float \<open>x\<close> and an \<^verbatim>\<open>int\<close> literal \<open>n\<close>\<close>
  "py_truediv_int x n = bind_result (py_float (PyInt n)) (float_truediv x)"

fun py_eq_int :: "pyval \<Rightarrow> int \<Rightarrow> bool" where
  \<comment> \<open>\<^verbatim>\<open>x == n\<close> for an \<^verbatim>\<open>int\<close> literal \<open>n\<close>: numbers compare by value\<close>
  "py_eq_int (PyInt i) n = (i = n)"
| "py_eq_int (PyFloat (Finite r)) n = (r = of_int n)"
| "py_eq_int (PyFloat x) n = False"
| "py_eq_int PyNone n = False"

fun py_round :: "pyval \<Rightarrow> error + int" where
  \<comment> \<open>\<^verbatim>\<open>round(x)\<close>: to the nearest integer, ties to even\<close>
  "py_round (PyInt i) = Inr i"
| "py_round (PyFloat (Finite r)) = Inr (round_half_even r)"
| "py_round (PyFloat PosInf) = Inl OverflowError"
| "py_round (PyFloat NegInf) = Inl OverflowError"
| "py_round (PyFloat NaN) = Inl ValueError"
| "py_round PyNone = Inl TypeError"

section \<open>Data points\<close>

text \<open>
  \<^verbatim>\<open>SmartDeviceDataPoint\<close>. The field \<^verbatim>\<open>value\<close> is written \<open>value'\<close>. The set
  \<^verbatim>\<open>_listener\<close> is the list of its callbacks in the order in which the set iterates;
  a callback takes no argument, acts on the host's state \<open>'s\<close> and may raise.
  The back-reference \<^verbatim>\<open>device\<close> is left out: \<open>set_value\<close> returns the command that
  \<^verbatim>\<open>device.send_data_point_update\<close> builds from the point.
\<close>

type_synonym 's callback = "'s \<Rightarrow> 's \<times> error option"

record 's data_point =
  index :: int
  name :: string
  point_type :: int
  value' :: pyval
  listener :: "'s callback list"

fun run_listeners :: "'s callback list \<Rightarrow> 's \<Rightarrow> 's \<times> error option" where
  "run_listeners [] s = (s, None)"
| "run_listeners (c # cs) s =
     (case c s of (s', Some e) \<Rightarrow> (s', Some e) | (s', None) \<Rightarrow> run_listeners cs s')"

definition update_value ::
  "'s data_point \<Rightarrow> pyval \<Rightarrow> 's \<Rightarrow> ('s data_point \<times> 's) \<times> error option" where
  "update_value dp data s =
     (let dp' = dp\<lparr>value' := data\<rparr>
      in case run_listeners (listener dp') s of (s', r) \<Rightarrow> ((dp', s'), r))"

definition get_value :: "'s data_point \<Rightarrow> error + pyval" where
  "get_value dp =
     (if point_type dp = 1 then bind_result (py_int (value' dp)) (\<lambda>i. Inr (PyInt i))
      else if point_type dp = 2 then
        bind_result (py_float (value' dp)) (\<lambda>x.
          bind_result (py_truediv_int x 10) (\<lambda>y. Inr (PyFloat y)))
      else if point_type dp = 7 then bind_result (py_int (value' dp)) (\<lambda>i. Inr (PyInt i))
      else if point_type dp = 8 then Inr (value' dp)
      else Inr (value' dp))"

definition encode :: "int \<Rightarrow> pyval \<Rightarrow> error + pyval" where
  \<comment> \<open>the \<^verbatim>\<open>match\<close> of \<^verbatim>\<open>set_value\<close>: the wire value stored for a display value\<close>
  "encode t v =
     (if t = 1 then bind_result (py_int v) (\<lambda>i. Inr (PyInt i))
      else if t = 2 then
        bind_result (py_mul_int v 10) (\<lambda>p. bind_result (py_int p) (\<lambda>i. Inr (PyInt i)))
      else if t = 7 then bind_result (py_int v) (\<lambda>i. Inr (PyInt i))
      else if t = 8 then Inr v
      else Inr v)"

record point_command =
  cmd_i :: int
  cmd_t :: int
  cmd_len :: int
  cmd_v :: pyval

definition send_data_point_update :: "'s data_point \<Rightarrow> point_command" where
  "send_data_point_update dp =
     \<lparr>cmd_i = index dp, cmd_t = point_type dp, cmd_len = 0, cmd_v = value' dp\<rparr>"

definition set_value :: "'s data_point \<Rightarrow> pyval \<Rightarrow> error + ('s data_point \<times> point_command)" where
  "set_value dp v =
     bind_result (encode (point_type dp) v)
       (\<lambda>w. let dp' = dp\<lparr>value' := w\<rparr> in Inr (dp', send_data_point_update dp'))"

section \<open>The inbound router\<close>

text \<open>
  A Python \<^verbatim>\<open>dict\<close> keeps its keys in insertion order: it is an association list with
  distinct keys. \<^verbatim>\<open>SmartDevice.data_points\<close> holds one data point object per key and is
  never resized after construction; updating a point in place is \<open>AList.update\<close> at its key.
  Of \<^verbatim>\<open>SmartDevice\<close> the router reads \<^verbatim>\<open>data_points\<close> only.
\<close>

type_synonym 's dp_map = "(string \<times> 's data_point) list"

record 's smart_device =
  mac_address :: string
  data_points :: "'s dp_map"

text \<open>
  \<^verbatim>\<open>handle_mqtt_command(data)\<close>: \<open>data\<close> maps a key to its payload; the model keeps of each
  payload what \<^verbatim>\<open>cmd.get("v")\<close> returns (\<open>PyNone\<close> when the payload has no \<^verbatim>\<open>"v"\<close>).
\<close>

fun handle_mqtt_command ::
  "'s smart_device \<Rightarrow> (string \<times> pyval) list \<Rightarrow> 's \<Rightarrow> ('s smart_device \<times> 's) \<times> error option" where
  "handle_mqtt_command dev [] s = ((dev, s), None)"
| "handle_mqtt_command dev ((k, v) # rest) s =
     (case map_of (data_points dev) k of
        None \<Rightarrow> handle_mqtt_command dev rest s
      | Some dp \<Rightarrow>
          (case update_value dp v s of
             ((dp', s'), Some e) \<Rightarrow>
               ((dev\<lparr>data_points := AList.update k dp' (data_points dev)\<rparr>, s'), Some e)
           | ((dp', s'), None) \<Rightarrow>
               handle_mqtt_command
                 (dev\<lparr>data_points := AList.update k dp' (data_points dev)\<rparr>) rest s'))"

text \<open>
  The decoded message. Each field holds what \<^verbatim>\<open>dict.get\<close> finds: \<open>None\<close> (for \<^verbatim>\<open>cmd\<close>,
  \<open>PyNone\<close>) for a missing key. \<^verbatim>\<open>cmd\<close> is a JSON number: the pattern \<^verbatim>\<open>case 98\<close>
  compares it with \<^verbatim>\<open>==\<close>, so the float 98.0 matches as the integer 98 does. A value
  that is not a number is never equal to 98; \<open>PyNone\<close> stands for it.
\<close>

record mqtt_entry =
  cmd :: pyval
  mac :: "string option"
  command :: "(string \<times> pyval) list option"

record mqtt_message =
  msg_method :: "string option"
  msg_data :: "mqtt_entry list option"

type_synonym 's devices = "(string \<times> 's smart_device) list"

text \<open>
  The loop of \<^verbatim>\<open>on_mqtt_message\<close> over \<^verbatim>\<open>data.get("data", [])\<close>. For \<^verbatim>\<open>cmd == 98\<close> it
  evaluates \<^verbatim>\<open>self.devices.get(d.get("mac", "")).handle_mqtt_command(...)\<close>: when the
  address is unknown, \<^verbatim>\<open>get\<close> returns \<^verbatim>\<open>None\<close> and the attribute access raises
  \<^verbatim>\<open>AttributeError\<close>. Any other \<^verbatim>\<open>cmd\<close> is logged and skipped.
\<close>

fun route_entries ::
  "'s devices \<Rightarrow> mqtt_entry list \<Rightarrow> 's \<Rightarrow> ('s devices \<times> 's) \<times> error option" where
  "route_entries devs [] s = ((devs, s), None)"
| "route_entries devs (d # ds) s =
     (if py_eq_int (cmd d) 98 then
        (case map_of devs (case_option [] id (mac d)) of
           None \<Rightarrow> ((devs, s), Some AttributeError)
         | Some dev \<Rightarrow>
             (case handle_mqtt_command dev (case_option [] id (command d)) s of
                ((dev', s'), Some e) \<Rightarrow>
                  ((AList.update (case_option [] id (mac d)) dev' devs, s'), Some e)
              | ((dev', s'), None) \<Rightarrow>
                  route_entries (AList.update (case_option [] id (mac d)) dev' devs) ds s'))
      else route_entries devs ds s)"

text \<open>
  When the method is not \<^verbatim>\<open>"command"\<close> the \<^verbatim>\<open>else\<close> branch logs the local variable
  \<^verbatim>\<open>d\<close>, which is bound only inside the loop of the other branch.
\<close>

definition on_mqtt_message ::
  "'s devices \<Rightarrow> mqtt_message \<Rightarrow> 's \<Rightarrow> ('s devices \<times> 's) \<times> error option" where
  "on_mqtt_message devs msg s =
     (if msg_method msg = Some ''command''
      then route_entries devs (case_option [] id (msg_data msg)) s
      else ((devs, s), Some UnboundLocalError))"

section \<open>Classification: dictionaries, strings and descriptors\<close>

text \<open>
  A descriptor (\<^verbatim>\<open>SensorData\<close>, \<^verbatim>\<open>WaterHeaterData\<close>, ...) holds references to data point
  objects. \<^verbatim>\<open>SmartDevice.__init__\<close> creates one object per key of \<^verbatim>\<open>data_points\<close>, so a
  reference is modelled by the pair of that key, which stands for the object's identity,
  and the object's fields. The keys a descriptor claims are the keys of its references.
\<close>

type_synonym 's dp_ref = "string \<times> 's data_point"

definition contains :: "string \<Rightarrow> 's dp_map \<Rightarrow> bool" where
  \<comment> \<open>\<^verbatim>\<open>k in data_points\<close>\<close>
  "contains k m = (k \<in> fst ` set m)"

definition pop :: "string \<Rightarrow> 's dp_map \<Rightarrow> error + ('s dp_ref \<times> 's dp_map)" where
  \<comment> \<open>\<^verbatim>\<open>data_points.pop(k)\<close>, without a default: a missing key raises\<close>
  "pop k m = (case map_of m k of
     None \<Rightarrow> Inl (KeyError k)
   | Some d \<Rightarrow> Inr ((k, d), AList.delete k m))"

definition startswith :: "string \<Rightarrow> string \<Rightarrow> bool" where
  "startswith k p = prefix p k"

definition endswith :: "string \<Rightarrow> string \<Rightarrow> bool" where
  "endswith k s = suffix s k"

text \<open>\<^verbatim>\<open>str.title()\<close> on ASCII: the first letter of every run of letters in upper case, the
  other letters of the run in lower case.\<close>

definition is_upper :: "char \<Rightarrow> bool" where
  "is_upper c = (65 \<le> (of_char c :: nat) \<and> (of_char c :: nat) \<le> 90)"

definition is_lower :: "char \<Rightarrow> bool" where
  "is_lower c = (97 \<le> (of_char c :: nat) \<and> (of_char c :: nat) \<le> 122)"

definition to_upper :: "char \<Rightarrow> char" where
  "to_upper c = (if is_lower c then char_of ((of_char c :: nat) - 32) else c)"

definition to_lower :: "char \<Rightarrow> char" where
  "to_lower c = (if is_upper c then char_of ((of_char c :: nat) + 32) else c)"

fun title_from :: "bool \<Rightarrow> string \<Rightarrow> string" where
  "title_from prev_cased [] = []"
| "title_from prev_cased (c # cs) =
     (if is_upper c \<or> is_lower c
      then (if prev_cased then to_lower c else to_upper c) # title_from True cs
      else c # title_from False cs)"

definition title :: "string \<Rightarrow> string" where
  "title s = title_from False s"

text \<open>The enumerations of Home Assistant that the descriptors use.\<close>

datatype unit_of_measurement = CELSIUS | LITERS_PER_SECOND | BAR
datatype sensor_device_class = TEMPERATURE | VOLUME_FLOW_RATE | PRESSURE | ENUM | PLUG | CONNECTIVITY
datatype switch_device_class = SWITCH
datatype number_device_class = NUMBER_TEMPERATURE
datatype number_mode = BOX
datatype state_class = MEASUREMENT
datatype entity_category = DIAGNOSTIC
datatype hvac_mode = AUTO | HEAT | OFF

record 's water_heater_data =
  wh_name :: string
  wh_icon :: "string option"
  wh_min_temp :: "'s dp_ref"
  wh_max_temp :: "'s dp_ref"
  wh_current_temp :: "'s dp_ref"
  wh_target_temp :: "'s dp_ref"
  wh_target_temp_step :: rat
  wh_temp_unit :: unit_of_measurement

record 's climate_data_t =
  cl_name :: string
  cl_icon :: "string option"
  cl_current_temp :: "'s dp_ref"
  cl_target_temp :: "'s dp_ref"
  cl_hvac_modes :: "(int \<times> hvac_mode) list"
  cl_hvac_mode :: "'s dp_ref"
  cl_target_temp_step :: rat
  cl_temp_unit :: unit_of_measurement
  cl_min_temp :: "'s dp_ref option"
  cl_max_temp :: "'s dp_ref option"

record 's select_data_t =
  sel_data_point :: "'s dp_ref"
  sel_name :: string
  sel_icon :: "string option"
  sel_options :: "(int \<times> string) list"

record 's switch_data =
  sw_data_point :: "'s dp_ref"
  sw_name :: string
  sw_icon :: "string option"
  sw_device_class :: "switch_device_class option"

record 's number_data =
  nd_data_point :: "'s dp_ref"
  nd_name :: string
  nd_icon :: "string option"
  nd_device_class :: "number_device_class option"
  nd_unit_of_measurement :: "unit_of_measurement option"
  nd_mode :: number_mode
  nd_min_value :: "rat option"
  nd_max_value :: "rat option"
  nd_step_value :: "rat option"

record 's sensor_data =
  sd_data_point :: "'s dp_ref"
  sd_name :: string
  sd_icon :: "string option"
  sd_device_class :: "sensor_device_class option"
  sd_state_class :: "state_class option"
  sd_unit_of_measurement :: "unit_of_measurement option"
  sd_options :: "(int \<times> string) list option"
  sd_entity_category :: "entity_category option"

definition SensorData :: "'s dp_ref \<Rightarrow> string \<Rightarrow> 's sensor_data" where
  \<comment> \<open>the constructor with every optional argument at its default \<^verbatim>\<open>None\<close>\<close>
  "SensorData r n = \<lparr>sd_data_point = r, sd_name = n, sd_icon = None, sd_device_class = None,
     sd_state_class = None, sd_unit_of_measurement = None, sd_options = None,
     sd_entity_category = None\<rparr>"

text \<open>
  The statement that every rule repeats, \<^verbatim>\<open>xs.append(D(data_point=data_points.pop(k), ...))\<close>,
  on the pair of the list under construction and the working dictionary; and a
  \<^verbatim>\<open>for\<close> loop whose body can raise.
\<close>

definition claim :: "string \<Rightarrow> ('s dp_ref \<Rightarrow> 'd) \<Rightarrow> 'd list \<times> 's dp_map \<Rightarrow> error + ('d list \<times> 's dp_map)" where
  "claim k mk st = (case st of (acc, m) \<Rightarrow>
     bind_result (pop k m) (\<lambda>(r, m'). Inr (acc @ [mk r], m')))"

fun for_items :: "('a \<Rightarrow> 'st \<Rightarrow> error + 'st) \<Rightarrow> 'a list \<Rightarrow> 'st \<Rightarrow> error + 'st" where
  "for_items body [] st = Inr st"
| "for_items body (x # xs) st = bind_result (body x st) (for_items body xs)"

section \<open>Classification: the rule passes\<close>

text \<open>
  Every pass takes the working dictionary \<^verbatim>\<open>unknown_points\<close> and returns its list of
  descriptors with the dictionary it leaves. Keyword arguments are evaluated in the
  order in which the source writes them, so the \<open>pop\<close>s run in that order.
\<close>

definition ch_keys :: "string list" where
  "ch_keys = [''PARAM_ID_BOILER_CH_CUR_TEMP'', ''PARAM_ID_BOILER_CH_SET_RANGE_DOWN'',
     ''PARAM_ID_BOILER_CH_SET_RANGE_UP'', ''PARAM_ID_BOILER_CH_MAX_SETPOINT'',
     ''PARAM_ID_BOILER_CH_TRG_TEMP'']"

definition dhw_keys :: "string list" where
  "dhw_keys = [''PARAM_ID_BOILER_DHW_CUR_TEMP'', ''PARAM_ID_BOILER_DHW_SET_RANGE_DOWN'',
     ''PARAM_ID_BOILER_DHW_SET_RANGE_UP'', ''PARAM_ID_BOILER_DHW_TRG_TEMP'']"

definition get_water_heaters ::
  "'s dp_map \<Rightarrow> error + ('s water_heater_data list \<times> 's dp_map)" where
  "get_water_heaters m0 =
     bind_result
       (if list_all (\<lambda>k. contains k m0) ch_keys then
          bind_result (pop ''PARAM_ID_BOILER_CH_SET_RANGE_DOWN'' m0) (\<lambda>(min_temp, m1).
          bind_result (pop ''PARAM_ID_BOILER_CH_SET_RANGE_UP'' m1) (\<lambda>(max_temp, m2).
          bind_result (pop ''PARAM_ID_BOILER_CH_CUR_TEMP'' m2) (\<lambda>(current_temp, m3).
          bind_result (pop ''PARAM_ID_BOILER_CH_MAX_SETPOINT'' m3) (\<lambda>(target_temp, m4).
            Inr ([\<lparr>wh_name = ''Heating Water Heater'', wh_icon = Some ''mdi:radiator'',
                   wh_min_temp = min_temp, wh_max_temp = max_temp,
                   wh_current_temp = current_temp, wh_target_temp = target_temp,
                   wh_target_temp_step = 1, wh_temp_unit = CELSIUS\<rparr>], m4)))))
        else Inr ([], m0))
       (\<lambda>(water_heaters, m).
          if list_all (\<lambda>k. contains k m) dhw_keys then
            bind_result (pop ''PARAM_ID_BOILER_DHW_SET_RANGE_DOWN'' m) (\<lambda>(min_temp, m1).
            bind_result (pop ''PARAM_ID_BOILER_DHW_SET_RANGE_UP'' m1) (\<lambda>(max_temp, m2).
            bind_result (pop ''PARAM_ID_BOILER_DHW_CUR_TEMP'' m2) (\<lambda>(current_temp, m3).
            bind_result (pop ''PARAM_ID_BOILER_DHW_TRG_TEMP'' m3) (\<lambda>(target_temp, m4).
              Inr (water_heaters @
                   [\<lparr>wh_name = ''Sanitary Water Heater'', wh_icon = Some ''mdi:faucet'',
                     wh_min_temp = min_temp, wh_max_temp = max_temp,
                     wh_current_temp = current_temp, wh_target_temp = target_temp,
                     wh_target_temp_step = 1, wh_temp_unit = CELSIUS\<rparr>], m4)))))
          else Inr (water_heaters, m))"

definition thermostat_keys :: "string list" where
  "thermostat_keys = [''PARAM_ID_TH_CUR_ROOM_TEMP'', ''PARAM_ID_TH_TRG_ROOM_TEMP'',
     ''PARAM_ID_TH_WORK_MODE'']"

definition get_climate_data ::
  "'s dp_map \<Rightarrow> error + ('s climate_data_t list \<times> 's dp_map)" where
  "get_climate_data m0 =
     (if list_all (\<lambda>k. contains k m0) thermostat_keys then
        bind_result (pop ''PARAM_ID_TH_CUR_ROOM_TEMP'' m0) (\<lambda>(current_temp, m1).
        bind_result (pop ''PARAM_ID_TH_TRG_ROOM_TEMP'' m1) (\<lambda>(target_temp, m2).
        bind_result (pop ''PARAM_ID_TH_WORK_MODE'' m2) (\<lambda>(mode, m3).
          Inr ([\<lparr>cl_name = ''Thermostat'', cl_icon = Some ''mdi:thermostat'',
                 cl_current_temp = current_temp, cl_target_temp = target_temp,
                 cl_hvac_modes = [(0, AUTO), (1, HEAT), (4, OFF)], cl_hvac_mode = mode,
                 cl_target_temp_step = 1 / 2, cl_temp_unit = CELSIUS,
                 cl_min_temp = None, cl_max_temp = None\<rparr>], m3))))
      else Inr ([], m0))"

definition get_select_data ::
  "'s dp_map \<Rightarrow> error + ('s select_data_t list \<times> 's dp_map)" where
  "get_select_data m0 =
     (if map_of m0 ''SYS_WORK_MODE'' \<noteq> None then
        claim ''SYS_WORK_MODE''
          (\<lambda>r. \<lparr>sel_data_point = r, sel_name = ''Work Mode'', sel_icon = Some ''mdi:auto-mode'',
                 sel_options = [(0, ''Standby''), (2, ''Sanitary''), (3, ''Heating''),
                                (10, ''Heating & Sanitary'')]\<rparr>)
          ([], m0)
      else Inr ([], m0))"

definition get_switches_data ::
  "'s dp_map \<Rightarrow> error + ('s switch_data list \<times> 's dp_map)" where
  "get_switches_data m0 =
     bind_result
       (if map_of m0 ''PARAM_ID_BOILER_DHW_PRO_EN'' \<noteq> None then
          claim ''PARAM_ID_BOILER_DHW_PRO_EN''
            (\<lambda>r. \<lparr>sw_data_point = r, sw_name = ''Domestic Water Heating Program'',
                   sw_icon = Some ''mdi:home-clock'', sw_device_class = Some SWITCH\<rparr>)
            ([], m0)
        else Inr ([], m0))
       (\<lambda>(switches_data, m).
          if map_of m ''PARAM_ID_SYS_DST_ENABLE'' \<noteq> None then
            claim ''PARAM_ID_SYS_DST_ENABLE''
              (\<lambda>r. \<lparr>sw_data_point = r, sw_name = ''Auto Time Sync'',
                     sw_icon = Some ''mdi:clock'', sw_device_class = Some SWITCH\<rparr>)
              (switches_data, m)
          else Inr (switches_data, m))"

definition get_numbers_data ::
  "'s dp_map \<Rightarrow> error + ('s number_data list \<times> 's dp_map)" where
  "get_numbers_data m0 =
     (if map_of m0 ''PARAM_ID_TH_POWEROFF_FROZE_TEMP'' \<noteq> None then
        claim ''PARAM_ID_TH_POWEROFF_FROZE_TEMP''
          (\<lambda>r. \<lparr>nd_data_point = r, nd_name = ''Poweroff Froze Temperature'',
                 nd_icon = Some ''mdi:snowflake-thermometer'',
                 nd_device_class = Some NUMBER_TEMPERATURE,
                 nd_unit_of_measurement = Some CELSIUS, nd_mode = BOX,
                 nd_min_value = Some 5, nd_max_value = Some 15, nd_step_value = Some (1 / 2)\<rparr>)
          ([], m0)
      else Inr ([], m0))"

text \<open>
  The body of the loop of \<^verbatim>\<open>get_sensors_data\<close> for one item \<open>(k, d)\<close> of the snapshot
  \<^verbatim>\<open>list(data_points.items())\<close>: an \<^verbatim>\<open>if\<close>/\<^verbatim>\<open>elif\<close> pair followed by six independent
  \<^verbatim>\<open>if\<close> statements, each of which pops \<open>k\<close> from the dictionary as it is then.
\<close>

definition measurement :: "'s dp_ref \<Rightarrow> string \<Rightarrow> string \<Rightarrow> sensor_device_class \<Rightarrow>
    unit_of_measurement \<Rightarrow> 's sensor_data" where
  "measurement r n i c u = (SensorData r n)\<lparr>sd_icon := Some i, sd_device_class := Some c,
     sd_state_class := Some MEASUREMENT, sd_unit_of_measurement := Some u\<rparr>"

definition sensors_item ::
  "'s dp_ref \<Rightarrow> 's sensor_data list \<times> 's dp_map \<Rightarrow> error + ('s sensor_data list \<times> 's dp_map)" where
  "sensors_item item st0 = (case item of (k, d) \<Rightarrow>
     bind_result
       (if k = ''PARAM_ID_BOILER_OUTDOOR_TEMP'' then
          claim k (\<lambda>r. measurement r ''Outdoor Temperature'' ''mdi:thermometer''
                          TEMPERATURE CELSIUS) st0
        else if endswith k ''_TEMP'' then
          claim k (\<lambda>r. measurement r (title (name d)) ''mdi:thermometer''
                          TEMPERATURE CELSIUS) st0
        else Inr st0) (\<lambda>st1.
     bind_result
       (if endswith k ''_RATE'' then
          claim k (\<lambda>r. measurement r (title (name d)) ''mdi:waves''
                          VOLUME_FLOW_RATE LITERS_PER_SECOND) st1
        else Inr st1) (\<lambda>st2.
     bind_result
       (if endswith k ''_PRESSURE'' then
          claim k (\<lambda>r. measurement r (title (name d)) ''mdi:gauge'' PRESSURE BAR) st2
        else Inr st2) (\<lambda>st3.
     bind_result
       (if endswith k ''WIFI_SIGNAL'' \<or> endswith k ''WIFI__SIGNAL'' then
          claim k (\<lambda>r. (SensorData r ''WiFi Signal'')\<lparr>sd_icon := Some ''mdi:signal-variant'',
                          sd_state_class := Some MEASUREMENT,
                          sd_entity_category := Some DIAGNOSTIC\<rparr>) st3
        else Inr st3) (\<lambda>st4.
     bind_result
       (if endswith k ''_FAULT_CODE'' then
          claim k (\<lambda>r. (SensorData r (title (name d)))\<lparr>sd_icon := Some ''mdi:alert'',
                          sd_entity_category := Some DIAGNOSTIC\<rparr>) st4
        else Inr st4) (\<lambda>st5.
     bind_result
       (if k = ''PARAM_ID_BOILER_OT_SLAVE_STATUS'' then
          claim k (\<lambda>r. (SensorData r ''Status'')\<lparr>sd_icon := Some ''mdi:state-machine'',
                          sd_device_class := Some ENUM,
                          sd_options := Some [(0, ''Standby''), (2, ''Radiators''),
                            (4, ''Domestic Water''), (10, ''Flame + Radiators''),
                            (12, ''Flame + Domestic Water'')]\<rparr>) st5
        else Inr st5) (\<lambda>st6.
       (if k = ''PARAM_ID_SYS_SOFT_VER'' then
          claim k (\<lambda>r. (SensorData r ''Software Version'')\<lparr>sd_icon := Some ''mdi:numeric'',
                          sd_entity_category := Some DIAGNOSTIC\<rparr>) st6
        else Inr st6))))))))"

definition get_sensors_data ::
  "'s dp_map \<Rightarrow> error + ('s sensor_data list \<times> 's dp_map)" where
  "get_sensors_data m0 =
     bind_result
       (if map_of m0 ''PARAM_ID_BOILER_CH_TRG_TEMP'' \<noteq> None then
          claim ''PARAM_ID_BOILER_CH_TRG_TEMP''
            (\<lambda>r. measurement r ''Heating Target Temperature'' ''mdi:thermometer''
                    TEMPERATURE CELSIUS)
            ([], m0)
        else Inr ([], m0))
       (\<lambda>(sensors_data, m). for_items sensors_item m (sensors_data, m))"

definition binary_sensors_item ::
  "'s dp_ref \<Rightarrow> 's sensor_data list \<times> 's dp_map \<Rightarrow> error + ('s sensor_data list \<times> 's dp_map)" where
  "binary_sensors_item item st = (case item of (k, d) \<Rightarrow>
     if k = ''PARAM_ID_BOILER_IS_ROOM_SENSOR_ENABL'' then
       claim k (\<lambda>r. (SensorData r ''External Temperature Sensor'')\<lparr>
                       sd_icon := Some ''mdi:thermometer-probe'', sd_device_class := Some PLUG\<rparr>) st
     else if k = ''PARAM_ID_BOILER_IS_OT_CONNECTED'' then
       claim k (\<lambda>r. (SensorData r ''Thermostat Connection'')\<lparr>
                       sd_icon := Some ''mdi:thermostat-box'',
                       sd_device_class := Some CONNECTIVITY\<rparr>) st
     else if k = ''PARAM_ID_BOILER_OTC_ENABLE'' then
       claim k (\<lambda>r. SensorData r ''Outdoor Temperature Compensation'') st
     else if endswith k ''_ENABLE'' \<or> endswith k ''_ENABL'' \<or> endswith k ''_CONNECTED'' then
       claim k (\<lambda>r. SensorData r (title (name d))) st
     else Inr st)"

definition get_binary_sensors_data ::
  "'s dp_map \<Rightarrow> error + ('s sensor_data list \<times> 's dp_map)" where
  "get_binary_sensors_data m0 = for_items binary_sensors_item m0 ([], m0)"

definition unsupported_keys :: "string list" where
  "unsupported_keys = [''PARAM_ID_SYS_DEVICE_MODULE'', ''PARAM_ID_TH_DELETE_TH_ADDR'']"

definition discard :: "string \<Rightarrow> 's dp_map \<Rightarrow> error + 's dp_map" where
  \<comment> \<open>the statement \<^verbatim>\<open>data_points.pop(k)\<close>, its value dropped\<close>
  "discard k m = bind_result (pop k m) (\<lambda>(r, m'). Inr m')"

definition remove_unsupported_data :: "'s dp_map \<Rightarrow> error + 's dp_map" where
  "remove_unsupported_data m0 =
     bind_result (for_items discard unsupported_keys m0) (\<lambda>m.
       for_items
         (\<lambda>k m'. if startswith k ''PARAM_ID_BOILER_DHW_PRO_''
                     \<or> startswith k ''PARAM_ID_TH_ROOM_PROG_DAY_''
                  then discard k m' else Inr m')
         (map fst m) m)"

text \<open>
  \<^verbatim>\<open>parse_data_points\<close> sets eight attributes of the device. \<open>group_passes\<close> is its
  body up to and including the seventh pass, \<open>parse_data_points\<close> the whole body, ending
  with \<^verbatim>\<open>remove_unsupported_data(self.unknown_points)\<close>. The attributes
  \<^verbatim>\<open>climate_data\<close> and \<^verbatim>\<open>select_data\<close> are written \<open>climate_data'\<close> and \<open>select_data'\<close>.
\<close>

record 's classification =
  water_heaters :: "'s water_heater_data list"
  climate_data' :: "'s climate_data_t list"
  select_data' :: "'s select_data_t list"
  switches_data :: "'s switch_data list"
  numbers_data :: "'s number_data list"
  sensors_data :: "'s sensor_data list"
  binary_sensors_data :: "'s sensor_data list"
  unknown_points :: "'s dp_map"

definition group_passes :: "'s dp_map \<Rightarrow> error + 's classification" where
  "group_passes dps =
     bind_result (get_water_heaters dps) (\<lambda>(wh, m1).
     bind_result (get_climate_data m1) (\<lambda>(cl, m2).
     bind_result (get_select_data m2) (\<lambda>(sel, m3).
     bind_result (get_switches_data m3) (\<lambda>(sw, m4).
     bind_result (get_numbers_data m4) (\<lambda>(nu, m5).
     bind_result (get_sensors_data m5) (\<lambda>(se, m6).
     bind_result (get_binary_sensors_data m6) (\<lambda>(bs, m7).
       Inr \<lparr>water_heaters = wh, climate_data' = cl, select_data' = sel, switches_data = sw,
            numbers_data = nu, sensors_data = se, binary_sensors_data = bs,
            unknown_points = m7\<rparr>)))))))"

definition parse_data_points :: "'s dp_map \<Rightarrow> error + 's classification" where
  "parse_data_points dps =
     bind_result (group_passes dps) (\<lambda>c.
     bind_result (remove_unsupported_data (unknown_points c)) (\<lambda>m.
       Inr (c\<lparr>unknown_points := m\<rparr>)))"

text \<open>
  \<^verbatim>\<open>sensor.py\<close>, \<^verbatim>\<open>async_setup_entry\<close>: every point left in \<^verbatim>\<open>unknown_points\<close> becomes a
  sensor named after the point, with no device class.
\<close>

definition residual_sensors :: "'s classification \<Rightarrow> 's sensor_data list" where
  "residual_sensors c = map (\<lambda>r. SensorData r (name (snd r))) (unknown_points c)"

text \<open>The keys that the descriptors of each group reference.\<close>

definition water_heater_keys :: "'s water_heater_data \<Rightarrow> string list" where
  "water_heater_keys w = [fst (wh_min_temp w), fst (wh_max_temp w), fst (wh_current_temp w),
     fst (wh_target_temp w)]"

definition climate_keys :: "'s climate_data_t \<Rightarrow> string list" where
  "climate_keys c = [fst (cl_current_temp c), fst (cl_target_temp c), fst (cl_hvac_mode c)]
     @ map fst (case_option [] (\<lambda>r. [r]) (cl_min_temp c))
     @ map fst (case_option [] (\<lambda>r. [r]) (cl_max_temp c))"

definition group_keys :: "'s classification \<Rightarrow> string list list" where
  "group_keys c =
     [concat (map water_heater_keys (water_heaters c)),
      concat (map climate_keys (climate_data' c)),
      map (fst \<circ> sel_data_point) (select_data' c),
      map (fst \<circ> sw_data_point) (switches_data c),
      map (fst \<circ> nd_data_point) (numbers_data c),
      map (fst \<circ> sd_data_point) (sensors_data c),
      map (fst \<circ> sd_data_point) (binary_sensors_data c)]"

definition residual_keys :: "'s classification \<Rightarrow> string list" where
  "residual_keys c = map (fst \<circ> sd_data_point) (residual_sensors c)"

section \<open>Classification: the rules as predicates\<close>

text \<open>
  The vocabulary of the classification theorems. \<open>drop_keys ks m\<close> is the dictionary \<open>m\<close>
  without the keys \<open>ks\<close>. \<open>sensor_rule\<close> and \<open>binary_sensor_rule\<close> are the conditions of
  the loops of \<^verbatim>\<open>get_sensors_data\<close> and \<^verbatim>\<open>get_binary_sensors_data\<close>; \<open>exact_keys\<close> are
  the keys that some pass pops by name; \<open>unsupported_prefix\<close> is the condition of the
  last loop of \<^verbatim>\<open>remove_unsupported_data\<close>. \<open>last2\<close>, the last two characters of a key
  in reverse, tells the suffixes of the sensor rules apart.
\<close>

definition drop_keys :: "string list \<Rightarrow> 's dp_map \<Rightarrow> 's dp_map" where
  "drop_keys ks m = filter (\<lambda>x. fst x \<notin> set ks) m"

definition sensor_rule :: "string \<Rightarrow> bool" where
  "sensor_rule k = (k = ''PARAM_ID_BOILER_OUTDOOR_TEMP'' \<or> endswith k ''_TEMP''
     \<or> endswith k ''_RATE'' \<or> endswith k ''_PRESSURE''
     \<or> endswith k ''WIFI_SIGNAL'' \<or> endswith k ''WIFI__SIGNAL''
     \<or> endswith k ''_FAULT_CODE'' \<or> k = ''PARAM_ID_BOILER_OT_SLAVE_STATUS''
     \<or> k = ''PARAM_ID_SYS_SOFT_VER'')"

definition last2 :: "string \<Rightarrow> string" where
  "last2 k = take 2 (rev k)"

definition binary_sensor_rule :: "string \<Rightarrow> bool" where
  "binary_sensor_rule k = (k = ''PARAM_ID_BOILER_IS_ROOM_SENSOR_ENABL''
     \<or> k = ''PARAM_ID_BOILER_IS_OT_CONNECTED'' \<or> k = ''PARAM_ID_BOILER_OTC_ENABLE''
     \<or> endswith k ''_ENABLE'' \<or> endswith k ''_ENABL'' \<or> endswith k ''_CONNECTED'')"

definition exact_keys :: "string list" where
  "exact_keys = [''PARAM_ID_BOILER_CH_SET_RANGE_DOWN'', ''PARAM_ID_BOILER_CH_SET_RANGE_UP'',
     ''PARAM_ID_BOILER_CH_CUR_TEMP'', ''PARAM_ID_BOILER_CH_MAX_SETPOINT'',
     ''PARAM_ID_BOILER_DHW_SET_RANGE_DOWN'', ''PARAM_ID_BOILER_DHW_SET_RANGE_UP'',
     ''PARAM_ID_BOILER_DHW_CUR_TEMP'', ''PARAM_ID_BOILER_DHW_TRG_TEMP'',
     ''PARAM_ID_TH_CUR_ROOM_TEMP'', ''PARAM_ID_TH_TRG_ROOM_TEMP'', ''PARAM_ID_TH_WORK_MODE'',
     ''SYS_WORK_MODE'', ''PARAM_ID_BOILER_DHW_PRO_EN'', ''PARAM_ID_SYS_DST_ENABLE'',
     ''PARAM_ID_TH_POWEROFF_FROZE_TEMP'', ''PARAM_ID_BOILER_CH_TRG_TEMP'']"

definition claimable :: "string \<Rightarrow> bool" where
  "claimable k = (k \<in> set exact_keys \<or> sensor_rule k \<or> binary_sensor_rule k)"

text \<open>\<open>claims_from m ks m'\<close>: a pass started on \<open>m\<close>, claimed the distinct keys \<open>ks\<close> of \<open>m\<close>,
  each by one of its rules, and left \<open>m'\<close>.\<close>

definition claims_from :: "'s dp_map \<Rightarrow> string list \<Rightarrow> 's dp_map \<Rightarrow> bool" where
  "claims_from m ks m' =
     (m' = drop_keys ks m \<and> set ks \<subseteq> fst ` set m \<and> distinct ks \<and> list_all claimable ks)"

definition unsupported_prefix :: "string \<Rightarrow> bool" where
  "unsupported_prefix k = (startswith k ''PARAM_ID_BOILER_DHW_PRO_''
     \<or> startswith k ''PARAM_ID_TH_ROOM_PROG_DAY_'')"

section \<open>Example inputs\<close>

text \<open>A device with the hardware address AA:BB that owns the data point FOO, and a
  message \<^verbatim>\<open>{method: "command", data: [{cmd: 98, mac: m, command: {k: {v: 42}}}]}\<close>.\<close>

definition foo_point :: "unit data_point" where
  "foo_point = \<lparr>index = 1, name = ''FOO'', point_type = 1, value' = PyInt 0, listener = []\<rparr>"

definition aabb_devices :: "unit devices" where
  "aabb_devices =
     [(''AA:BB'', \<lparr>mac_address = ''AA:BB'', data_points = [(''FOO'', foo_point)]\<rparr>)]"

definition foo_message :: "string \<Rightarrow> string \<Rightarrow> mqtt_message" where
  "foo_message m k = \<lparr>msg_method = Some ''command'',
     msg_data = Some [\<lparr>cmd = PyInt 98, mac = Some m, command = Some [(k, PyInt 42)]\<rparr>]\<rparr>"

text \<open>A fixed-point data point (type 2), and the encoding that rounds: the wire value
  \<^verbatim>\<open>round(value * 10)\<close> of a display value.\<close>

definition fixed_point :: "unit data_point" where
  "fixed_point = \<lparr>index = 2, name = ''TEMP'', point_type = 2, value' = PyInt 0, listener = []\<rparr>"

definition spec_encode_fixed_point :: "pyval \<Rightarrow> error + pyval" where
  "spec_encode_fixed_point v =
     bind_result (py_mul_int v 10) (\<lambda>p. bind_result (py_round p) (\<lambda>i. Inr (PyInt i)))"

text \<open>Callbacks on a host whose state is the log of the callbacks that ran: one that
  returns and one that raises, each after writing its tag to the log.\<close>

definition log_ok :: "string \<Rightarrow> (string list) callback" where
  "log_ok tag s = (s @ [tag], None)"

definition log_raise :: "string \<Rightarrow> (string list) callback" where
  "log_raise tag s = (s @ [tag], Some (CallbackError tag))"

definition listening_point :: "(string list) callback list \<Rightarrow> (string list) data_point" where
  "listening_point cs =
     \<lparr>index = 1, name = ''FOO'', point_type = 1, value' = PyInt 0, listener = cs\<rparr>"

text \<open>Devices for the classification: a data point for a key, a dictionary for a list of
  keys; a device with the two unsupported keys, a key of a weekly programme and a key
  that no rule knows; and a device with the two unsupported keys and a thermostat.\<close>

definition point_of :: "string \<Rightarrow> unit data_point" where
  "point_of k = \<lparr>index = 0, name = k, point_type = 1, value' = PyInt 0, listener = []\<rparr>"

definition points_of :: "string list \<Rightarrow> unit dp_map" where
  "points_of ks = map (\<lambda>k. (k, point_of k)) ks"

definition pruned_points :: "unit dp_map" where
  "pruned_points = points_of (unsupported_keys @ [''PARAM_ID_BOILER_DHW_PRO_1'', ''FOO''])"

definition thermostat_points :: "unit dp_map" where
  "thermostat_points = points_of (unsupported_keys @ thermostat_keys)"

section \<open>Floating point: lemmas\<close>

lemma powi2_pos [simp]: "0 < (2::rat) powi n"
  by (simp add: zero_less_power_int)

lemma powi2_less_cancel: "(2::rat) powi a < 2 powi b \<Longrightarrow> a < b"
  using power_int_increasing [of b a "2::rat"] by (cases "a < b") auto

lemma powi2_le_cancel: "(2::rat) powi a \<le> 2 powi b \<Longrightarrow> a \<le> b"
  using power_int_strict_increasing [of b a "2::rat"] by (cases "a \<le> b") auto

lemma powi2_nat: "0 \<le> n \<Longrightarrow> (2::rat) powi n = of_int (2 ^ nat n)"
  by (simp add: power_int_def)

lemma expo_bounds:
  assumes "0 < q"
  shows "2 powi expo q \<le> q" and "q < 2 powi (expo q + 1)"
proof -
  obtain a b where ab: "quotient_of q = (a, b)" by (cases "quotient_of q")
  have b: "0 < b" using quotient_of_denom_pos [OF ab] .
  have q: "q = of_int a / of_int b" using quotient_of_div [OF ab] .
  have a: "0 < a" using assms b q by (simp add: zero_less_divide_iff)
  let ?la = "bitlen a" and ?lb = "bitlen b"
  have la1: "1 \<le> ?la" using a by (simp add: bitlen_ge_iff_power)
  have lb1: "1 \<le> ?lb" using b by (simp add: bitlen_ge_iff_power)
  have A1: "(2::rat) powi (?la - 1) \<le> of_int a"
    using bitlen_bounds [OF a] la1 by (simp only: powi2_nat of_int_le_iff)
  have A2: "of_int a < (2::rat) powi ?la"
    using bitlen_bounds [OF a] la1 by (simp only: powi2_nat of_int_less_iff)
  have B1: "(2::rat) powi (?lb - 1) \<le> of_int b"
    using bitlen_bounds [OF b] lb1 by (simp only: powi2_nat of_int_le_iff)
  have B2: "of_int b < (2::rat) powi ?lb"
    using bitlen_bounds [OF b] lb1 by (simp only: powi2_nat of_int_less_iff)
  have qb: "q * of_int b = of_int a" using q b by simp
  have "q * 2 powi (?lb - 1) \<le> q * of_int b"
    using B1 assms by (simp add: mult_left_mono)
  then have "q * 2 powi (?lb - 1) < 2 powi ?la" using qb A2 by simp
  then have "q < 2 powi ?la / 2 powi (?lb - 1)" by (simp add: pos_less_divide_eq)
  then have upper: "q < 2 powi (?la - ?lb + 1)"
    by (simp add: power_int_diff [symmetric] algebra_simps)
  have "q * of_int b < q * 2 powi ?lb"
    using B2 assms by (simp add: mult_strict_left_mono)
  then have "2 powi (?la - 1) < q * 2 powi ?lb" using qb A1 by simp
  then have "2 powi (?la - 1) / 2 powi ?lb < q" by (simp add: pos_divide_less_eq)
  then have lower: "2 powi (?la - ?lb - 1) < q"
    by (simp add: power_int_diff [symmetric] algebra_simps)
  show "2 powi expo q \<le> q"
    using lower by (simp add: expo_def ab Let_def)
  show "q < 2 powi (expo q + 1)"
    using upper by (auto simp add: expo_def ab Let_def not_le)
qed

lemma expo_unique:
  assumes "2 powi e \<le> q" and "q < 2 powi (e + 1)"
  shows "expo q = e"
proof -
  have q: "0 < q" using assms(1) powi2_pos [of e] by linarith
  have "(2::rat) powi e < 2 powi (expo q + 1)"
    using assms(1) expo_bounds(2) [OF q] by linarith
  moreover have "(2::rat) powi expo q < 2 powi (e + 1)"
    using assms(2) expo_bounds(1) [OF q] by linarith
  ultimately show ?thesis
    using powi2_less_cancel [of e "expo q + 1"] powi2_less_cancel [of "expo q" "e + 1"] by linarith
qed

lemma overflows_iff: "overflows r \<longleftrightarrow> 2 powi emax \<le> \<bar>r\<bar>"
proof (cases "r = 0")
  case True
  then show ?thesis by (simp add: overflows_def not_le)
next
  case False
  then have p: "0 < \<bar>r\<bar>" by simp
  show ?thesis
  proof
    assume "overflows r"
    then have "(2::rat) powi emax \<le> 2 powi expo \<bar>r\<bar>"
      by (simp add: overflows_def power_int_increasing)
    then show "2 powi emax \<le> \<bar>r\<bar>" using expo_bounds(1) [OF p] by linarith
  next
    assume "2 powi emax \<le> \<bar>r\<bar>"
    then have "(2::rat) powi emax < 2 powi (expo \<bar>r\<bar> + 1)" using expo_bounds(2) [OF p] by linarith
    then show "overflows r" using False powi2_less_cancel [of emax "expo \<bar>r\<bar> + 1"]
      by (simp add: overflows_def)
  qed
qed

lemma round_half_even_bounds:
  "\<bar>of_int (round_half_even r) - r\<bar> \<le> 1 / 2"
proof -
  have "of_int \<lfloor>r\<rfloor> \<le> r" "r < of_int \<lfloor>r\<rfloor> + 1" by linarith+
  then show ?thesis unfolding round_half_even_def Let_def
    by (auto simp del: of_int_floor_le)
qed

lemma round_half_even_ge: "of_int n \<le> r \<Longrightarrow> n \<le> round_half_even r"
proof -
  assume "of_int n \<le> r"
  then have "n \<le> \<lfloor>r\<rfloor>" by (simp add: le_floor_iff)
  then show ?thesis unfolding round_half_even_def Let_def by auto
qed

lemma round_half_even_le: "r \<le> of_int n \<Longrightarrow> round_half_even r \<le> n"
proof -
  assume a: "r \<le> of_int n"
  have f: "of_int \<lfloor>r\<rfloor> \<le> r" "r < of_int \<lfloor>r\<rfloor> + 1" by linarith+
  have "\<lfloor>r\<rfloor> \<le> n" using a by (simp add: floor_le_iff)
  moreover have "r - of_int \<lfloor>r\<rfloor> > 0 \<Longrightarrow> \<lfloor>r\<rfloor> + 1 \<le> n"
  proof -
    assume "r - of_int \<lfloor>r\<rfloor> > 0"
    then have "of_int \<lfloor>r\<rfloor> < (of_int n :: rat)" using a by linarith
    then show ?thesis by simp
  qed
  ultimately show ?thesis unfolding round_half_even_def Let_def by auto
qed

lemma round_half_even_of_int [simp]: "round_half_even (of_int n) = n"
  by (simp add: round_half_even_def)


lemma rnd_pos:
  assumes "0 < q" and "emin \<le> expo q"
  shows "rnd q = of_int (round_half_even (q / 2 powi (expo q - 52))) * 2 powi (expo q - 52)"
  using assms by (simp add: rnd_def Let_def max_def)

lemma rnd_minus: "rnd (- q) = - rnd q"
  by (simp add: rnd_def Let_def sgn_minus)

lemma rnd_ge_powi:
  assumes "2 powi e \<le> q" and "emin \<le> e"
  shows "2 powi e \<le> rnd q"
proof -
  have q: "0 < q" using assms(1) powi2_pos [of e] by linarith
  let ?E = "expo q" and ?u = "2 powi (expo q - 52) :: rat"
  have "(2::rat) powi e < 2 powi (?E + 1)" using assms(1) expo_bounds(2) [OF q] by linarith
  then have eE: "e \<le> ?E" using powi2_less_cancel [of e "?E + 1"] by simp
  have g: "2 powi 52 * ?u = 2 powi ?E"
    using power_int_add [of "2::rat" 52 "expo q - 52"] by simp
  have "2 powi 52 \<le> q / ?u"
    using expo_bounds(1) [OF q] g by (simp only: pos_le_divide_eq powi2_pos)
  moreover have "(2::rat) powi 52 = of_int (2 ^ 52)" by (simp add: powi2_nat)
  ultimately have "of_int (2 ^ 52) \<le> q / ?u" by simp
  then have "2 ^ 52 \<le> round_half_even (q / ?u)" by (rule round_half_even_ge)
  then have "(of_int (2 ^ 52) :: rat) \<le> of_int (round_half_even (q / ?u))"
    by (simp only: of_int_le_iff)
  then have "2 powi 52 \<le> (of_int (round_half_even (q / ?u)) :: rat)"
    by (simp add: powi2_nat)
  then have "2 powi 52 * ?u \<le> of_int (round_half_even (q / ?u)) * ?u"
    by (rule mult_right_mono) simp
  then have "2 powi ?E \<le> rnd q" using rnd_pos [OF q] eE assms(2) by (simp only: g)
  moreover have "(2::rat) powi e \<le> 2 powi ?E" using eE by (simp add: power_int_increasing)
  ultimately show ?thesis by linarith
qed


lemma overflows_rnd:
  assumes "2 powi emax \<le> q"
  shows "overflows (rnd q)" and "0 < rnd q"
proof -
  have r: "2 powi emax \<le> rnd q"
    using assms by (rule rnd_ge_powi) (simp add: emax_def emin_def)
  then show "0 < rnd q" using powi2_pos [of emax] by linarith
  then show "overflows (rnd q)" using r by (simp add: overflows_iff)
qed

lemma rnd_representable:
  assumes "0 < q" and "emin \<le> expo q" and "q = of_int n * 2 powi (expo q - 52)"
  shows "rnd q = q"
proof -
  have "q / 2 powi (expo q - 52) = of_int n"
    by (subst assms(3)) simp
  then show ?thesis using rnd_pos [OF assms(1,2)] assms(3) by simp
qed

lemma round_half_even_near:
  assumes "\<bar>r - of_int j\<bar> < 1 / 2"
  shows "round_half_even r = j"
proof (cases "of_int j \<le> r")
  case True
  then have f: "\<lfloor>r\<rfloor> = j" using assms by (simp add: floor_eq_iff; linarith?)
  show ?thesis using assms True by (simp add: round_half_even_def Let_def f; linarith?)
next
  case False
  then have f: "\<lfloor>r\<rfloor> = j - 1" using assms by (simp add: floor_eq_iff; linarith?)
  show ?thesis using assms False by (simp add: round_half_even_def Let_def f; linarith?)
qed

lemma round_half_even_tie:
  assumes "\<bar>r - of_int j\<bar> \<le> 1 / 2" and "even j"
  shows "round_half_even r = j"
proof (cases "of_int j \<le> r")
  case True
  then have f: "\<lfloor>r\<rfloor> = j" using assms by (simp add: floor_eq_iff; linarith?)
  show ?thesis using assms True by (simp add: round_half_even_def Let_def f; linarith?)
next
  case False
  then have f: "\<lfloor>r\<rfloor> = j - 1" using assms by (simp add: floor_eq_iff; linarith?)
  show ?thesis using assms False by (simp add: round_half_even_def Let_def f; linarith?)
qed


lemma powi2_shift: "(2::rat) powi (a + m) = 2 powi m * 2 powi a"
  by (simp add: power_int_add)

lemma rnd_scaled:
  assumes u: "u = 2 powi (e - 52)" and e: "emin \<le> e"
    and lo: "2 ^ 52 \<le> m" and hi: "m < 2 ^ 53"
  shows "rnd (of_int m * u) = of_int m * u" and "expo (of_int m * u) = e"
proof -
  have up: "0 < u" by (simp add: u)
  have a: "2 powi e = 2 ^ 52 * u" using powi2_shift [of "e - 52" 52] by (simp add: u)
  have b: "2 powi (e + 1) = 2 ^ 53 * u" using powi2_shift [of "e - 52" 53] by (simp add: u add.commute)
  have "(of_int (2 ^ 52) :: rat) \<le> of_int m" using lo by (simp only: of_int_le_iff)
  then have "(2 ^ 52 :: rat) \<le> of_int m" by simp
  then have 1: "2 powi e \<le> of_int m * u" using up by (simp add: a)
  have "(of_int m :: rat) < of_int (2 ^ 53)" using hi by (simp only: of_int_less_iff)
  then have "of_int m < (2 ^ 53 :: rat)" by simp
  then have 2: "of_int m * u < 2 powi (e + 1)" using up by (simp add: b)
  show ex: "expo (of_int m * u) = e" using 1 2 by (rule expo_unique)
  have p: "0 < of_int m * u" using 1 powi2_pos [of e] by linarith
  show "rnd (of_int m * u) = of_int m * u"
    using rnd_representable [of "of_int m * u" m] p e ex u by simp
qed

lemma fl_10: "fl 10 = Finite 10"
  by code_simp

lemma rnd_15_4: "rnd (15 / 4) = 15 / 4"
  by code_simp

lemma overflows_15_4: "\<not> overflows (15 / 4)"
  by code_simp

lemma trunc_15_4: "trunc (15 / 4) = 3"
  by code_simp

lemma round_half_even_15_4: "round_half_even (15 / 4) = 4"
  by code_simp

lemma overflows_huge: "overflows (rnd (2 powi (emax - 1) * 10))" "0 < rnd (2 powi (emax - 1) * 10)"
proof -
  have "(2::rat) powi emax = 2 powi (emax - 1) * 2"
    using powi2_shift [of "emax - 1" 1] by simp
  then have "(2::rat) powi emax \<le> 2 powi (emax - 1) * 10" by simp
  then show "overflows (rnd (2 powi (emax - 1) * 10))" "0 < rnd (2 powi (emax - 1) * 10)"
    by (rule overflows_rnd)+
qed

lemma py_float_10: "py_float (PyInt 10) = Inr (Finite 10)"
  by (simp add: fl_10)

lemma py_mul_int_10:
  "py_mul_int (PyFloat (Finite v)) 10 =
     Inr (PyFloat (if overflows (rnd (v * 10)) then (if 0 < rnd (v * 10) then PosInf else NegInf)
                   else Finite (rnd (v * 10))))"
  by (simp only: py_mul_int.simps py_float_10 bind_result_def sum.case float_mul.simps fl_def Let_def)

lemma encode_fixed_point_float:
  "encode 2 (PyFloat (Finite v)) =
     (if overflows (rnd (v * 10)) then Inl OverflowError
      else Inr (PyInt (trunc (rnd (v * 10)))))"
  unfolding encode_def by (simp add: py_mul_int_10 bind_result_def del: py_mul_int.simps)

lemma encode_fixed_point_other:
  "encode 2 (PyFloat PosInf) = Inl OverflowError"
  "encode 2 (PyFloat NegInf) = Inl OverflowError"
  "encode 2 (PyFloat NaN) = Inl ValueError"
  "encode 2 PyNone = Inl TypeError"
  "encode 2 (PyInt i) = Inr (PyInt (i * 10))"
  by (simp_all add: encode_def bind_result_def py_float_10 del: py_float.simps)

lemma spec_encode_fixed_point_float:
  "spec_encode_fixed_point (PyFloat (Finite v)) =
     (if overflows (rnd (v * 10)) then Inl OverflowError
      else Inr (PyInt (round_half_even (rnd (v * 10)))))"
  unfolding spec_encode_fixed_point_def
  by (simp add: py_mul_int_10 bind_result_def del: py_mul_int.simps)

lemma rnd_on_grid:
  assumes v: "v = 2 powi (e - 52)" and e: "emin \<le> e"
    and lo: "2 ^ 52 * v \<le> y" and hi: "y < 2 ^ 53 * v"
  shows "rnd y = of_int (round_half_even (y / v)) * v"
proof -
  have vp: "0 < v" by (simp add: v)
  have a: "2 powi e = 2 ^ 52 * v" using powi2_shift [of "e - 52" 52] by (simp add: v)
  have b: "2 powi (e + 1) = 2 ^ 53 * v"
    using powi2_shift [of "e - 52" 53] by (simp add: v add.commute)
  have ex: "expo y = e" using lo hi unfolding a [symmetric] b [symmetric] by (rule expo_unique)
  have "0 < 2 ^ 52 * v" using vp by simp
  then have "0 < y" using lo by linarith
  then show ?thesis using rnd_pos [of y] e ex v by simp
qed

lemma abs_le_4:
  fixes n K :: int
  assumes "10 * n - K \<le> 5" "- 5 \<le> 10 * n - K" "16 dvd K"
  shows "\<bar>10 * n - K\<bar> \<le> 4"
proof -
  obtain j where "K = 16 * j" using assms(3) by (auto simp: dvd_def)
  then show ?thesis using assms(1,2) by arith
qed

lemma abs_eighth:
  fixes n j :: int
  shows "\<bar>of_int (10 * n) / 8 - (of_int (2 * j) :: rat)\<bar> = \<bar>of_int (10 * n - 16 * j)\<bar> / 8"
proof -
  have "of_int (10 * n) / 8 - (of_int (2 * j) :: rat) = of_int (10 * n - 16 * j) / 8" by simp
  then show ?thesis by (simp only: abs_divide)
qed

lemma abs_sixteenth:
  fixes n j :: int
  shows "\<bar>of_int (10 * n) / 16 - (of_int j :: rat)\<bar> = \<bar>of_int (10 * n - 16 * j)\<bar> / 16"
proof -
  have "of_int (10 * n) / 16 - (of_int j :: rat) = of_int (10 * n - 16 * j) / 16" by simp
  then show ?thesis by (simp only: abs_divide)
qed


lemma rnd_div_mul_10_pos:
  fixes k :: int
  assumes k0: "0 < k" and k1: "k < 2 ^ 52"
  shows "rnd (rnd (of_int k / 10) * 10) = of_int k"
    and "0 < rnd (of_int k / 10)" and "rnd (of_int k / 10) \<le> 2 powi 49"
proof -
  define q :: rat where "q = of_int k / 10"
  define e where "e = expo q"
  define u :: rat where "u = 2 powi (e - 52)"
  have q0: "0 < q" using k0 by (simp add: q_def)
  have up: "0 < u" by (simp add: u_def)
  have eb: "2 powi e \<le> q" "q < 2 powi (e + 1)"
    using expo_bounds [OF q0] by (simp_all add: e_def)
  have "(of_int k :: rat) < of_int (2 ^ 52)" using k1 by (simp only: of_int_less_iff)
  then have "q < 2 powi 49" by (simp add: q_def)
  then have "(2::rat) powi e < 2 powi 49" using eb(1) by linarith
  then have e48: "e \<le> 48" using powi2_less_cancel [of e 49] by simp
  have "(of_int 1 :: rat) \<le> of_int k" using k0 by (simp only: of_int_le_iff; simp?)
  then have "2 powi (- 4) \<le> q" by (simp add: q_def)
  then have "(2::rat) powi (- 4) < 2 powi (e + 1)" using eb(2) by linarith
  then have em4: "- 4 \<le> e" using powi2_less_cancel [of "- 4" "e + 1"] by simp
  have emin: "emin \<le> e" using em4 by (simp add: emin_def)
  define d where "d = nat (52 - e)"
  have d4: "4 \<le> d" using e48 by (simp add: d_def)
  have ud: "u * 2 ^ d = 1"
  proof -
    have "(2::rat) ^ d = 2 powi (52 - e)" using e48 by (simp add: d_def power_int_def)
    then have "u * 2 ^ d = 2 powi (e - 52) * 2 powi (52 - e)" by (simp add: u_def)
    also have "\<dots> = 2 powi 0" using powi2_shift [of "52 - e" "e - 52"] by simp
    finally show ?thesis by simp
  qed
  define K where "K = k * 2 ^ d"
  have "of_int K * u = of_int k * (u * 2 ^ d)" by (simp add: K_def)
  then have Ku: "of_int K * u = of_int k" by (simp only: ud mult_1_right)
  have qu: "q / u = of_int K / 10"
  proof -
    have "q = of_int K / 10 * u" using Ku by (simp add: q_def)
    then show ?thesis using up by simp
  qed
  have K16: "16 dvd K"
  proof -
    have "(2::int) ^ 4 dvd 2 ^ d" using d4 by (rule le_imp_power_dvd)
    then show ?thesis by (simp add: K_def)
  qed
  define n where "n = round_half_even (q / u)"
  have x: "rnd q = of_int n * u" using rnd_pos [OF q0] emin by (simp add: e_def u_def n_def)
  have nb: "\<bar>of_int n - of_int K / 10\<bar> \<le> (1 / 2 :: rat)"
    using round_half_even_bounds [of "q / u"] by (simp add: n_def qu)
  have nb': "of_int n - of_int K / 10 \<le> (1 / 2 :: rat)" "- (1 / 2 :: rat) \<le> of_int n - of_int K / 10"
    using nb by linarith+
  have "(of_int (10 * n - K) :: rat) = 10 * (of_int n - of_int K / 10)" by simp
  then have "(of_int (10 * n - K) :: rat) \<le> 5" "(- 5 :: rat) \<le> of_int (10 * n - K)"
    using nb' by linarith+
  then have "(of_int (10 * n - K) :: rat) \<le> of_int 5" "(of_int (- 5) :: rat) \<le> of_int (10 * n - K)"
    by simp_all
  then have "10 * n - K \<le> 5" "- 5 \<le> 10 * n - K" by (simp_all only: of_int_le_iff)
  then have n4: "\<bar>10 * n - K\<bar> \<le> 4" using K16 by (rule abs_le_4)
  then have n4r: "\<bar>of_int (10 * n - K) :: rat\<bar> \<le> of_int 4"
    by (simp only: of_int_abs [symmetric] of_int_le_iff)
  have a: "2 powi e = 2 ^ 52 * u" using powi2_shift [of "e - 52" 52] by (simp add: u_def)
  have b: "2 powi (e + 1) = 2 ^ 53 * u"
    using powi2_shift [of "e - 52" 53] by (simp add: u_def add.commute)
  have "of_int (2 ^ 52) \<le> q / u" using eb(1) up by (simp add: a pos_le_divide_eq)
  then have nlo: "2 ^ 52 \<le> n" unfolding n_def by (rule round_half_even_ge)
  have "q / u \<le> of_int (2 ^ 53)" using eb(2) up by (simp add: b pos_divide_le_eq)
  then have nhi: "n \<le> 2 ^ 53" unfolding n_def by (rule round_half_even_le)
  define y where "y = rnd q * 10"
  have y: "y = of_int (10 * n) * u" by (simp add: y_def x)
  obtain j where j: "K = 16 * j" using K16 by (auto simp: dvd_def)
  have "rnd y = of_int k"
  proof (cases "10 * n < 2 ^ 56")
    case True
    define v :: rat where "v = 2 powi ((e + 3) - 52)"
    have v8: "v = 8 * u" using powi2_shift [of "e - 52" 3] by (simp add: v_def u_def algebra_simps)
    have "(of_int (2 ^ 55) :: rat) \<le> of_int (10 * n)" using nlo by (simp only: of_int_le_iff; simp?)
    then have lo: "2 ^ 52 * v \<le> y" using up by (simp add: y v8)
    have "(of_int (10 * n) :: rat) < of_int (2 ^ 56)" using True by (simp only: of_int_less_iff)
    then have hi: "y < 2 ^ 53 * v" using up by (simp add: y v8)
    have e3: "emin \<le> e + 3" using emin by simp
    have r: "rnd y = of_int (round_half_even (y / v)) * v"
      using v_def e3 lo hi by (rule rnd_on_grid)
    have yv: "y / v = of_int (10 * n) / 8" using up by (simp add: y v8)
    have "\<bar>of_int (10 * n) / 8 - (of_int (2 * j) :: rat)\<bar> = \<bar>of_int (10 * n - K)\<bar> / 8"
      unfolding j by (rule abs_eighth)
    also have "\<dots> \<le> 1 / 2" using n4r by simp
    finally have "round_half_even (y / v) = 2 * j"
      unfolding yv by (rule round_half_even_tie) simp
    then have "rnd y = of_int (2 * j) * (8 * u)" using r v8 by simp
    also have "\<dots> = of_int K * u" by (simp add: j)
    finally show ?thesis using Ku by simp
  next
    case False
    define v :: rat where "v = 2 powi ((e + 4) - 52)"
    have v16: "v = 16 * u" using powi2_shift [of "e - 52" 4] by (simp add: v_def u_def algebra_simps)
    have "(of_int (2 ^ 56) :: rat) \<le> of_int (10 * n)" using False by (simp only: of_int_le_iff; simp?)
    then have lo: "2 ^ 52 * v \<le> y" using up by (simp add: y v16)
    have "(of_int (10 * n) :: rat) < of_int (2 ^ 57)" using nhi by (simp only: of_int_less_iff; simp?)
    then have hi: "y < 2 ^ 53 * v" using up by (simp add: y v16)
    have e4: "emin \<le> e + 4" using emin by simp
    have r: "rnd y = of_int (round_half_even (y / v)) * v"
      using v_def e4 lo hi by (rule rnd_on_grid)
    have yv: "y / v = of_int (10 * n) / 16" using up by (simp add: y v16)
    have "\<bar>of_int (10 * n) / 16 - (of_int j :: rat)\<bar> = \<bar>of_int (10 * n - K)\<bar> / 16"
      unfolding j by (rule abs_sixteenth)
    also have "\<dots> < 1 / 2" using n4r by simp
    finally have "round_half_even (y / v) = j"
      unfolding yv by (rule round_half_even_near)
    then have "rnd y = of_int j * (16 * u)" using r v16 by simp
    also have "\<dots> = of_int K * u" by (simp add: j)
    finally show ?thesis using Ku by simp
  qed
  then show "rnd (rnd (of_int k / 10) * 10) = of_int k" by (simp add: y_def q_def)
  have "(of_int (2 ^ 52) :: rat) \<le> of_int n" using nlo by (simp only: of_int_le_iff)
  then have "0 < (of_int n :: rat)" by simp
  then show "0 < rnd (of_int k / 10)" using up by (simp add: x q_def [symmetric])
  have "(of_int n :: rat) \<le> of_int (2 ^ 53)" using nhi by (simp only: of_int_le_iff)
  then have "of_int n * u \<le> 2 ^ 53 * u" using up by simp
  then have "rnd q \<le> 2 powi (e + 1)" by (simp only: x b)
  moreover have "(2::rat) powi (e + 1) \<le> 2 powi 49"
    using e48 by (intro power_int_increasing) simp_all
  ultimately show "rnd (of_int k / 10) \<le> 2 powi 49" unfolding q_def by linarith
qed

lemma rnd_0 [simp]: "rnd 0 = 0"
  by (simp add: rnd_def)

lemma rnd_div_mul_10:
  fixes k :: int
  assumes "\<bar>k\<bar> < 2 ^ 52"
  shows "rnd (rnd (of_int k / 10) * 10) = of_int k" and "\<bar>rnd (of_int k / 10)\<bar> \<le> 2 powi 49"
proof -
  consider "0 < k" | "k = 0" | "0 < - k" by linarith
  then have "rnd (rnd (of_int k / 10) * 10) = of_int k \<and> \<bar>rnd (of_int k / 10)\<bar> \<le> 2 powi 49"
  proof cases
    case 1
    then have "k < 2 ^ 52" using assms by simp
    then show ?thesis using rnd_div_mul_10_pos [OF 1] by simp
  next
    case 2
    then show ?thesis by simp
  next
    case 3
    then have "- k < 2 ^ 52" using assms by simp
    then have "rnd (rnd (of_int (- k) / 10) * 10) = of_int (- k)"
      "0 < rnd (of_int (- k) / 10)" "rnd (of_int (- k) / 10) \<le> 2 powi 49"
      using rnd_div_mul_10_pos [OF 3] by simp_all
    moreover have "rnd (of_int (- k) / 10) = - rnd (of_int k / 10)"
      using rnd_minus [of "of_int k / 10"] by simp
    ultimately have "rnd (- (rnd (of_int k / 10) * 10)) = - of_int k"
      "\<bar>rnd (of_int k / 10)\<bar> \<le> 2 powi 49" by simp_all
    then show ?thesis by (simp add: rnd_minus)
  qed
  then show "rnd (rnd (of_int k / 10) * 10) = of_int k" "\<bar>rnd (of_int k / 10)\<bar> \<le> 2 powi 49"
    by simp_all
qed

lemma not_overflows:
  assumes "\<bar>r\<bar> \<le> 2 powi e" and "e < emax"
  shows "\<not> overflows r"
proof -
  have "(2::rat) powi e < 2 powi emax" using assms(2) by (intro power_int_strict_increasing) simp_all
  then show ?thesis using assms(1) by (simp add: overflows_iff)
qed

lemma rnd_of_int:
  fixes k :: int
  assumes "\<bar>k\<bar> < 2 ^ 53"
  shows "rnd (of_int k) = of_int k"
proof -
  have pos: "rnd (of_int m) = of_int m" if m: "0 < m" "m < 2 ^ 53" for m :: int
  proof -
    define q :: rat where "q = of_int m"
    define e where "e = expo q"
    have q0: "0 < q" using m by (simp add: q_def)
    have eb: "2 powi e \<le> q" "q < 2 powi (e + 1)"
      using expo_bounds [OF q0] by (simp_all add: e_def)
    have "(of_int m :: rat) < of_int (2 ^ 53)" using m(2) by (simp only: of_int_less_iff)
    then have "q < 2 powi 53" by (simp add: q_def)
    then have "(2::rat) powi e < 2 powi 53" using eb(1) by linarith
    then have e52: "e \<le> 52" using powi2_less_cancel [of e 53] by simp
    have "(of_int 1 :: rat) \<le> of_int m" using m(1) by (simp only: of_int_le_iff; simp?)
    then have "2 powi 0 \<le> q" by (simp add: q_def)
    then have "(2::rat) powi 0 < 2 powi (e + 1)" using eb(2) by linarith
    then have e0: "0 \<le> e" using powi2_less_cancel [of 0 "e + 1"] by simp
    define d where "d = nat (52 - e)"
    have "(2::rat) ^ d = 2 powi (52 - e)" using e52 by (simp add: d_def power_int_def)
    then have "2 powi (e - 52) * (2::rat) ^ d = 2 powi (e - 52) * 2 powi (52 - e)" by simp
    also have "\<dots> = 2 powi 0" using powi2_shift [of "52 - e" "e - 52"] by simp
    finally have ud: "2 powi (e - 52) * (2::rat) ^ d = 1" by simp
    have "of_int (m * 2 ^ d) * 2 powi (e - 52) = q * (2 powi (e - 52) * (2::rat) ^ d)"
      by (simp add: q_def)
    also have "\<dots> = q" by (simp only: ud mult_1_right)
    finally have "q = of_int (m * 2 ^ d) * 2 powi (expo q - 52)"
      by (simp only: e_def)
    moreover have "emin \<le> expo q" using e0 by (simp add: emin_def e_def)
    ultimately have "rnd q = q" using q0 by (intro rnd_representable)
    then show ?thesis by (simp add: q_def)
  qed
  consider "0 < k" | "k = 0" | "0 < - k" by linarith
  then show ?thesis
  proof cases
    case 1
    then show ?thesis using pos [of k] assms by simp
  next
    case 2
    then show ?thesis by simp
  next
    case 3
    then have "rnd (of_int (- k)) = of_int (- k)" using pos [of "- k"] assms by simp
    then show ?thesis using rnd_minus [of "of_int k"] by simp
  qed
qed

lemma fl_of_int:
  fixes k :: int
  assumes "\<bar>k\<bar> < 2 ^ 53"
  shows "fl (of_int k) = Finite (of_int k)"
proof -
  have "(of_int \<bar>k\<bar> :: rat) < of_int (2 ^ 53)" using assms by (simp only: of_int_less_iff)
  then have "\<bar>of_int k :: rat\<bar> \<le> 2 powi 53" by simp
  then have "\<not> overflows (of_int k)" by (rule not_overflows) (simp add: emax_def)
  then show ?thesis by (simp add: fl_def rnd_of_int [OF assms])
qed

lemma trunc_of_int [simp]: "trunc (of_int k) = k"
  by (simp add: trunc_def)

lemma encode_fixed_point_tenths:
  fixes k :: int
  assumes "\<bar>k\<bar> < 2 ^ 52"
  shows "encode 2 (PyFloat (Finite (rnd (of_int k / 10)))) = Inr (PyInt k)"
    and "spec_encode_fixed_point (PyFloat (Finite (rnd (of_int k / 10)))) = Inr (PyInt k)"
proof -
  have "(of_int \<bar>k\<bar> :: rat) < of_int (2 ^ 52)" using assms by (simp only: of_int_less_iff)
  then have "\<bar>of_int k :: rat\<bar> \<le> 2 powi 52" by simp
  then have "\<not> overflows (of_int k)" by (rule not_overflows) (simp add: emax_def)
  then show "encode 2 (PyFloat (Finite (rnd (of_int k / 10)))) = Inr (PyInt k)"
    "spec_encode_fixed_point (PyFloat (Finite (rnd (of_int k / 10)))) = Inr (PyInt k)"
    by (simp_all add: encode_fixed_point_float spec_encode_fixed_point_float
        rnd_div_mul_10 [OF assms])
qed

lemma get_value_fixed_point_tenths:
  fixes k :: int
  assumes "\<bar>k\<bar> < 2 ^ 52" and "point_type dp = 2" and "value' dp = PyInt k"
  shows "get_value dp = Inr (PyFloat (Finite (rnd (of_int k / 10))))"
proof -
  have k53: "\<bar>k\<bar> < 2 ^ 53" using assms(1) by simp
  have "\<not> overflows (rnd (of_int k / 10))"
    using rnd_div_mul_10(2) [OF assms(1)] by (rule not_overflows) (simp add: emax_def)
  then have "py_truediv_int (Finite (of_int k)) 10 = Inr (Finite (rnd (of_int k / 10)))"
    by (simp add: py_truediv_int_def py_float_10 bind_result_def fl_def del: py_float.simps)
  then show ?thesis
    by (simp add: get_value_def assms(2,3) fl_of_int [OF k53] bind_result_def)
qed

lemma rnd_tenth: "rnd (1 / 10) = 3602879701896397 / 36028797018963968"
  by code_simp

lemma rnd_big_product: "rnd 22517998136852470 = 22517998136852472"
  by code_simp

lemma overflows_big_product: "\<not> overflows 22517998136852472"
  by code_simp

lemma fl_big_product: "fl 22517998136852472 = Finite 22517998136852472"
  by code_simp

lemma py_float_big_product:
  "py_float (PyInt 22517998136852472) = Inr (Finite 22517998136852472)"
  by (simp add: fl_big_product)

lemma fl_big_quotient: "fl (11258999068426236 / 5) = Finite (9007199254740989 / 4)"
  by code_simp

lemma trunc_big_product: "trunc 22517998136852472 = 22517998136852472"
  by code_simp

section \<open>Codec, fan-out and router: theorems\<close>

text \<open>
  C1. A message with \<^verbatim>\<open>cmd\<close> 98 for a hardware address that no device has does not leave
  \<^verbatim>\<open>on_mqtt_message\<close> silently: the devices are unchanged, but \<^verbatim>\<open>AttributeError\<close> is
  raised, here for the address CC:DD when the only device is AA:BB.
\<close>

theorem on_mqtt_message_unknown_mac_raises:
  "on_mqtt_message aabb_devices (foo_message ''CC:DD'' ''FOO'') () =
     ((aabb_devices, ()), Some AttributeError)"
  by (simp add: on_mqtt_message_def foo_message_def aabb_devices_def)

text \<open>The sibling path does ignore what it does not know: keys that the addressed
  device does not own change nothing and raise nothing.\<close>

lemma handle_mqtt_command_unknown_keys:
  "\<forall>k \<in> fst ` set c. map_of (data_points dev) k = None \<Longrightarrow>
     handle_mqtt_command dev c s = ((dev, s), None)"
  by (induction c) auto

lemma on_mqtt_message_unknown_key_ignored:
  "on_mqtt_message aabb_devices (foo_message ''AA:BB'' ''BAR'') () = ((aabb_devices, ()), None)"
  by (simp add: on_mqtt_message_def foo_message_def aabb_devices_def)

text \<open>
  C5, as stated, fails: for the display value 0.375 of a type 2 point, \<^verbatim>\<open>set_value\<close>
  stores 3, the truncation of 3.75, where rounding gives 4. (0.375 and 3.75 are binary
  fractions: the float product is exact.)
\<close>

theorem set_value_rounds_counterexample:
  "map_sum id (value' \<circ> fst) (set_value fixed_point (PyFloat (Finite (3 / 8)))) = Inr (PyInt 3)
   \<and> spec_encode_fixed_point (PyFloat (Finite (3 / 8))) = Inr (PyInt 4)"
  by (simp add: set_value_def encode_fixed_point_float spec_encode_fixed_point_float
      bind_result_def fixed_point_def rnd_15_4 overflows_15_4 trunc_15_4 round_half_even_15_4
      send_data_point_update_def)

text \<open>
  C5, amended. For a type 2 point \<^verbatim>\<open>set_value\<close> stores \<^verbatim>\<open>int(value * 10)\<close> and sends that
  wire value with the point's index and type. For a finite float display value the wire
  value is the float product truncated toward zero; when the product overflows to an
  infinity, and for an infinite display value, \<^verbatim>\<open>int\<close> raises \<^verbatim>\<open>OverflowError\<close>, for a NaN
  \<^verbatim>\<open>ValueError\<close>, for \<^verbatim>\<open>None\<close> the product raises \<^verbatim>\<open>TypeError\<close>, and nothing is stored or
  sent. For an integer display value the wire value is ten times the value. On the
  display values with one decimal digit, the floats nearest to \<open>k / 10\<close> for an integer
  \<open>k\<close> of magnitude below \<open>2 ^ 52\<close>, truncation and rounding agree: the wire value is \<open>k\<close>.
\<close>

theorem set_value_fixed_point_truncates:
  "point_type dp = 2 \<Longrightarrow>
     set_value dp (PyFloat (Finite v)) =
       (if overflows (rnd (v * 10)) then Inl OverflowError
        else Inr (dp\<lparr>value' := PyInt (trunc (rnd (v * 10)))\<rparr>,
                  \<lparr>cmd_i = index dp, cmd_t = 2, cmd_len = 0,
                   cmd_v = PyInt (trunc (rnd (v * 10)))\<rparr>))
   \<and> set_value dp (PyFloat PosInf) = Inl OverflowError
   \<and> set_value dp (PyFloat NegInf) = Inl OverflowError
   \<and> set_value dp (PyFloat NaN) = Inl ValueError
   \<and> set_value dp PyNone = Inl TypeError
   \<and> set_value dp (PyInt i) =
       Inr (dp\<lparr>value' := PyInt (i * 10)\<rparr>,
            \<lparr>cmd_i = index dp, cmd_t = 2, cmd_len = 0, cmd_v = PyInt (i * 10)\<rparr>)
   \<and> (\<bar>k\<bar> < 2 ^ 52 \<longrightarrow>
        set_value dp (PyFloat (Finite (rnd (of_int k / 10)))) =
          Inr (dp\<lparr>value' := PyInt k\<rparr>,
               \<lparr>cmd_i = index dp, cmd_t = 2, cmd_len = 0, cmd_v = PyInt k\<rparr>)
        \<and> spec_encode_fixed_point (PyFloat (Finite (rnd (of_int k / 10)))) = Inr (PyInt k))"
proof -
  assume t: "point_type dp = 2"
  have "set_value dp (PyFloat (Finite (rnd (of_int k / 10)))) =
          Inr (dp\<lparr>value' := PyInt k\<rparr>,
               \<lparr>cmd_i = index dp, cmd_t = 2, cmd_len = 0, cmd_v = PyInt k\<rparr>)
        \<and> spec_encode_fixed_point (PyFloat (Finite (rnd (of_int k / 10)))) = Inr (PyInt k)"
    if "\<bar>k\<bar> < 2 ^ 52"
    using that t by (simp add: set_value_def encode_fixed_point_tenths bind_result_def
        send_data_point_update_def)
  then show ?thesis
    using t by (simp add: set_value_def encode_fixed_point_float encode_fixed_point_other
        bind_result_def send_data_point_update_def)
qed

theorem set_value_fixed_point_truncates_witness:
  "point_type fixed_point = 2
   \<and> map_sum id (value' \<circ> fst) (set_value fixed_point (PyFloat (Finite (3 / 8)))) = Inr (PyInt 3)
   \<and> set_value fixed_point (PyFloat (Finite (2 powi (emax - 1)))) = Inl OverflowError
   \<and> \<bar>1 :: int\<bar> < 2 ^ 52
   \<and> map_sum id (value' \<circ> fst)
         (set_value fixed_point (PyFloat (Finite (3602879701896397 / 36028797018963968))))
       = Inr (PyInt 1)"
  using set_value_fixed_point_truncates [of fixed_point "3 / 8" 0 0]
    set_value_fixed_point_truncates [of fixed_point "2 powi (emax - 1)" 0 0]
    set_value_fixed_point_truncates [of fixed_point 0 0 1]
  by (simp add: fixed_point_def rnd_15_4 overflows_15_4 trunc_15_4 overflows_huge rnd_tenth)

text \<open>
  C4, as stated, fails for a large display value. 2251799813685247 is a float and has one
  decimal digit (it is an integer). \<^verbatim>\<open>set_value\<close> multiplies it by 10; the product needs
  55 bits and is rounded to 22517998136852472, which is stored. \<^verbatim>\<open>get_value\<close> divides by
  10 and returns 2251799813685247.25, which is 0.25 away from the display value.
\<close>

theorem fixed_point_round_trip_counterexample:
  "set_value fixed_point (PyFloat (Finite 2251799813685247)) =
     Inr (fixed_point\<lparr>value' := PyInt 22517998136852472\<rparr>,
          \<lparr>cmd_i = 2, cmd_t = 2, cmd_len = 0, cmd_v = PyInt 22517998136852472\<rparr>)
   \<and> get_value (fixed_point\<lparr>value' := PyInt 22517998136852472\<rparr>) =
       Inr (PyFloat (Finite (2251799813685247 + 1 / 4)))
   \<and> (1 / 10 :: rat) < \<bar>(2251799813685247 + 1 / 4) - 2251799813685247\<bar>"
  by (simp add: set_value_def encode_fixed_point_float rnd_big_product overflows_big_product
      trunc_big_product bind_result_def send_data_point_update_def fixed_point_def
      get_value_def py_float_big_product py_truediv_int_def py_float_10 fl_big_quotient
      del: py_float.simps)

text \<open>
  C4, amended. Let \<open>k\<close> be an integer of magnitude below \<open>2 ^ 52\<close> and \<open>x\<close> the float nearest
  to \<open>k / 10\<close>, the display value with one decimal digit. For a type 2 point
  \<^verbatim>\<open>set_value(x)\<close> stores and sends the wire value \<open>k\<close>, and \<^verbatim>\<open>get_value\<close> then returns
  \<open>x\<close> itself: the round trip is exact.
\<close>

theorem fixed_point_round_trip:
  fixes k :: int
  assumes "point_type dp = 2" and "\<bar>k\<bar> < 2 ^ 52"
  shows "fl (of_int k / 10) = Finite (rnd (of_int k / 10))
    \<and> set_value dp (PyFloat (Finite (rnd (of_int k / 10)))) =
        Inr (dp\<lparr>value' := PyInt k\<rparr>,
             \<lparr>cmd_i = index dp, cmd_t = 2, cmd_len = 0, cmd_v = PyInt k\<rparr>)
    \<and> get_value (dp\<lparr>value' := PyInt k\<rparr>) = Inr (PyFloat (Finite (rnd (of_int k / 10))))"
proof -
  have "\<not> overflows (rnd (of_int k / 10))"
    using rnd_div_mul_10(2) [OF assms(2)] by (rule not_overflows) (simp add: emax_def)
  then have "fl (of_int k / 10) = Finite (rnd (of_int k / 10))" by (simp add: fl_def)
  moreover have "get_value (dp\<lparr>value' := PyInt k\<rparr>) = Inr (PyFloat (Finite (rnd (of_int k / 10))))"
    using assms by (intro get_value_fixed_point_tenths) simp_all
  ultimately show ?thesis
    using assms by (simp add: set_value_def encode_fixed_point_tenths bind_result_def
        send_data_point_update_def)
qed

theorem fixed_point_round_trip_witness:
  "point_type fixed_point = 2 \<and> \<bar>1 :: int\<bar> < 2 ^ 52
   \<and> fl (1 / 10) = Finite (3602879701896397 / 36028797018963968)
   \<and> map_sum id (value' \<circ> fst)
        (set_value fixed_point (PyFloat (Finite (3602879701896397 / 36028797018963968))))
      = Inr (PyInt 1)
   \<and> get_value (fixed_point\<lparr>value' := PyInt 1\<rparr>) =
       Inr (PyFloat (Finite (3602879701896397 / 36028797018963968)))"
  using fixed_point_round_trip [of fixed_point 1]
  by (simp add: fixed_point_def rnd_tenth)

text \<open>
  C6, as stated, fails. With the listeners a, which raises, and b, iterated in this
  order, \<^verbatim>\<open>update_value(7)\<close> stores 7, runs a and raises: b never runs. With two
  listeners that both raise, the one that the set iterates second never runs, whichever
  it is.
\<close>

theorem update_value_fan_out_counterexample:
  "update_value (listening_point [log_raise ''a'', log_ok ''b'']) (PyInt 7) [] =
     ((listening_point [log_raise ''a'', log_ok ''b'']\<lparr>value' := PyInt 7\<rparr>, [''a'']),
      Some (CallbackError ''a''))
   \<and> snd (fst (update_value (listening_point [log_raise ''a'', log_raise ''b'']) (PyInt 7) []))
       = [''a'']
   \<and> snd (fst (update_value (listening_point [log_raise ''b'', log_raise ''a'']) (PyInt 7) []))
       = [''b'']"
  by (simp add: update_value_def listening_point_def log_raise_def log_ok_def)

lemma run_listeners_append:
  "run_listeners pre s = (s1, None) \<Longrightarrow> run_listeners (pre @ cs) s = run_listeners cs s1"
  by (induction pre arbitrary: s) (auto split: prod.splits option.splits)

text \<open>
  C6, amended. \<^verbatim>\<open>update_value\<close> stores the value and calls the listeners in iteration
  order up to the first that raises: when the listeners \<open>pre\<close> return and the next one,
  \<open>c\<close>, raises \<open>e\<close>, the call raises \<open>e\<close> in the state that \<open>c\<close> left, whatever listeners
  \<open>post\<close> come after \<open>c\<close>: they are not called.
\<close>

theorem update_value_stops_at_first_exception:
  assumes "run_listeners pre s = (s1, None)" and "c s1 = (s2, Some e)"
  shows "update_value (dp\<lparr>listener := pre @ c # post\<rparr>) v s =
           ((dp\<lparr>listener := pre @ c # post, value' := v\<rparr>, s2), Some e)"
  using assms by (simp add: update_value_def run_listeners_append)

theorem update_value_stops_at_first_exception_witness:
  "run_listeners [log_ok ''a''] [] = ([''a''], None)
   \<and> log_raise ''b'' [''a''] = ([''a'', ''b''], Some (CallbackError ''b''))
   \<and> update_value (listening_point [log_ok ''a'', log_raise ''b'', log_ok ''c'']) (PyInt 7) [] =
       ((listening_point [log_ok ''a'', log_raise ''b'', log_ok ''c'']\<lparr>value' := PyInt 7\<rparr>,
         [''a'', ''b'']), Some (CallbackError ''b''))"
proof -
  have 1: "run_listeners [log_ok ''a''] [] = ([''a''], None)"
    by (simp add: log_ok_def)
  have 2: "log_raise ''b'' [''a''] = ([''a'', ''b''], Some (CallbackError ''b''))"
    by (simp add: log_raise_def)
  show ?thesis
    using update_value_stops_at_first_exception [where pre = "[log_ok ''a'']" and s = "[]"
        and ?s1.0 = "[''a'']" and c = "log_raise ''b''" and ?s2.0 = "[''a'', ''b'']"
        and e = "CallbackError ''b''" and dp = "listening_point []" and post = "[log_ok ''c'']"
        and v = "PyInt 7"] 1 2
    by (simp add: listening_point_def)
qed


section \<open>Classification: lemmas\<close>

lemma endswith_code: "endswith k s = (take (length s) (rev k) = rev s)"
proof
  assume "endswith k s"
  then obtain zs where "k = zs @ s" by (auto simp: endswith_def suffix_def)
  then show "take (length s) (rev k) = rev s" by simp
next
  assume "take (length s) (rev k) = rev s"
  then have "rev s @ drop (length s) (rev k) = rev k"
    using append_take_drop_id [of "length s" "rev k"] by simp
  then have "rev (rev s @ drop (length s) (rev k)) = rev (rev k)" by (simp only:)
  then have "k = rev (drop (length s) (rev k)) @ s" by simp
  then show "endswith k s" unfolding endswith_def suffix_def by blast
qed

lemma drop_keys_Nil [simp]: "drop_keys [] m = m"
  by (simp add: drop_keys_def)

lemma delete_drop_keys: "AList.delete k m = drop_keys [k] m"
  by (induction m) (auto simp: drop_keys_def)

lemma drop_keys_drop_keys: "drop_keys b (drop_keys a m) = drop_keys (a @ b) m"
  by (induction m) (auto simp: drop_keys_def)

lemma keys_drop_keys: "map fst (drop_keys ks m) = filter (\<lambda>k. k \<notin> set ks) (map fst m)"
  by (induction m) (auto simp: drop_keys_def)

lemma set_keys_drop_keys: "fst ` set (drop_keys ks m) = fst ` set m - set ks"
  by (auto simp: drop_keys_def)

lemma map_of_drop_keys: "k \<notin> set ks \<Longrightarrow> map_of (drop_keys ks m) k = map_of m k"
  by (induction m) (auto simp: drop_keys_def)

lemma pop_present:
  assumes "k \<in> fst ` set m"
  shows "pop k m = Inr ((k, the (map_of m k)), drop_keys [k] m)"
proof -
  from assms have "map_of m k \<noteq> None" by (simp add: map_of_eq_None_iff)
  then show ?thesis by (auto simp: pop_def delete_drop_keys)
qed

lemma pop_absent:
  assumes "k \<notin> fst ` set m"
  shows "pop k m = Inl (KeyError k)"
proof -
  from assms have "map_of m k = None" by (simp add: map_of_eq_None_iff)
  then show ?thesis by (simp add: pop_def)
qed

lemma claim_present:
  "k \<in> fst ` set m \<Longrightarrow>
     claim k mk (acc, m) = Inr (acc @ [mk (k, the (map_of m k))], drop_keys [k] m)"
  by (simp add: claim_def pop_present bind_result_def)

lemma discard_present: "k \<in> fst ` set m \<Longrightarrow> discard k m = Inr (drop_keys [k] m)"
  by (simp add: discard_def pop_present bind_result_def)

lemma discard_absent: "k \<notin> fst ` set m \<Longrightarrow> discard k m = Inl (KeyError k)"
  by (simp add: discard_def pop_absent bind_result_def)

lemma map_of_present: "(map_of m k \<noteq> None) = (k \<in> fst ` set m)"
  by (simp add: map_of_eq_None_iff)

lemma endswith_last2:
  assumes "endswith k s" and "2 \<le> length s"
  shows "last2 k = last2 s"
proof -
  from assms(1) have e: "take (length s) (rev k) = rev s" by (simp add: endswith_code)
  have "take 2 (rev s) = take 2 (take (length s) (rev k))" by (simp only: e)
  also have "\<dots> = take 2 (rev k)" using assms(2) by (simp add: min_def)
  finally show ?thesis by (simp add: last2_def)
qed

lemma not_endswith: "last2 k \<noteq> last2 s \<Longrightarrow> 2 \<le> length s \<Longrightarrow> endswith k s = False"
  by (auto dest: endswith_last2)

lemma sd_data_point_measurement [simp]: "sd_data_point (measurement r n i c u) = r"
  by (simp add: measurement_def SensorData_def)

lemma sd_data_point_SensorData [simp]: "sd_data_point (SensorData r n) = r"
  by (simp add: SensorData_def)

lemma bind_result_Inr [simp]: "bind_result (Inr x) f = f x"
  by (simp add: bind_result_def)

lemma bind_result_Inl [simp]: "bind_result (Inl e) f = Inl e"
  by (simp add: bind_result_def)

lemma sensor_tags:
  "k = ''PARAM_ID_BOILER_OUTDOOR_TEMP'' \<Longrightarrow> last2 k = ''PM''"
  "endswith k ''_TEMP'' \<Longrightarrow> last2 k = ''PM''"
  "endswith k ''_RATE'' \<Longrightarrow> last2 k = ''ET''"
  "endswith k ''_PRESSURE'' \<Longrightarrow> last2 k = ''ER''"
  "endswith k ''WIFI_SIGNAL'' \<Longrightarrow> last2 k = ''LA''"
  "endswith k ''WIFI__SIGNAL'' \<Longrightarrow> last2 k = ''LA''"
  "endswith k ''_FAULT_CODE'' \<Longrightarrow> last2 k = ''ED''"
  "k = ''PARAM_ID_BOILER_OT_SLAVE_STATUS'' \<Longrightarrow> last2 k = ''SU''"
  "k = ''PARAM_ID_SYS_SOFT_VER'' \<Longrightarrow> last2 k = ''RE''"
  by (auto dest!: endswith_last2 simp: last2_def)

lemma sensors_item_step:
  assumes "k \<in> fst ` set m"
  shows "\<exists>new. sensors_item (k, d) (acc, m) =
            Inr (acc @ new, if sensor_rule k then drop_keys [k] m else m)
          \<and> map (fst \<circ> sd_data_point) new = (if sensor_rule k then [k] else [])"
proof -
  consider (outdoor_or_temp) "k = ''PARAM_ID_BOILER_OUTDOOR_TEMP'' \<or> endswith k ''_TEMP''"
    |  (rate) "endswith k ''_RATE''"
    |  (pressure) "endswith k ''_PRESSURE''"
    |  (wifi) "endswith k ''WIFI_SIGNAL'' \<or> endswith k ''WIFI__SIGNAL''"
    |  (fault) "endswith k ''_FAULT_CODE''"
    |  (status) "k = ''PARAM_ID_BOILER_OT_SLAVE_STATUS''"
    |  (ver) "k = ''PARAM_ID_SYS_SOFT_VER''"
    | (none) "\<not> sensor_rule k"
    unfolding sensor_rule_def by blast
  then show ?thesis
  proof cases
    case outdoor_or_temp
    then have l: "last2 k = ''PM''" by (auto dest: sensor_tags simp: last2_def)
    have n: "\<not> endswith k ''_RATE''" "\<not> endswith k ''_PRESSURE''" "\<not> endswith k ''WIFI_SIGNAL''" "\<not> endswith k ''WIFI__SIGNAL''" "\<not> endswith k ''_FAULT_CODE''" "k \<noteq> ''PARAM_ID_BOILER_OT_SLAVE_STATUS''" "k \<noteq> ''PARAM_ID_SYS_SOFT_VER''"
      using l by (auto dest: sensor_tags simp: last2_def)
    have r: "sensor_rule k" using outdoor_or_temp by (auto simp: sensor_rule_def)
    show ?thesis
    proof (cases "k = ''PARAM_ID_BOILER_OUTDOOR_TEMP''")
      case True
      then show ?thesis using n r assms
        by (simp add: sensors_item_def claim_present)
    next
      case False
      with outdoor_or_temp have "endswith k ''_TEMP''" by simp
      with False show ?thesis using n r
        by (simp add: sensors_item_def claim_present [OF assms])
    qed
  next
    case rate
    then have l: "last2 k = ''ET''" by (auto dest: sensor_tags simp: last2_def)
    have n: "k \<noteq> ''PARAM_ID_BOILER_OUTDOOR_TEMP''" "\<not> endswith k ''_TEMP''" "\<not> endswith k ''_PRESSURE''" "\<not> endswith k ''WIFI_SIGNAL''" "\<not> endswith k ''WIFI__SIGNAL''" "\<not> endswith k ''_FAULT_CODE''" "k \<noteq> ''PARAM_ID_BOILER_OT_SLAVE_STATUS''" "k \<noteq> ''PARAM_ID_SYS_SOFT_VER''"
      using l by (auto dest: sensor_tags simp: last2_def)
    have r: "sensor_rule k" using rate by (auto simp: sensor_rule_def)
    show ?thesis using rate n r
      by (simp add: sensors_item_def claim_present [OF assms])
  next
    case pressure
    then have l: "last2 k = ''ER''" by (auto dest: sensor_tags simp: last2_def)
    have n: "k \<noteq> ''PARAM_ID_BOILER_OUTDOOR_TEMP''" "\<not> endswith k ''_TEMP''" "\<not> endswith k ''_RATE''" "\<not> endswith k ''WIFI_SIGNAL''" "\<not> endswith k ''WIFI__SIGNAL''" "\<not> endswith k ''_FAULT_CODE''" "k \<noteq> ''PARAM_ID_BOILER_OT_SLAVE_STATUS''" "k \<noteq> ''PARAM_ID_SYS_SOFT_VER''"
      using l by (auto dest: sensor_tags simp: last2_def)
    have r: "sensor_rule k" using pressure by (auto simp: sensor_rule_def)
    show ?thesis using pressure n r
      by (simp add: sensors_item_def claim_present [OF assms])
  next
    case wifi
    then have l: "last2 k = ''LA''" by (auto dest: sensor_tags simp: last2_def)
    have n: "k \<noteq> ''PARAM_ID_BOILER_OUTDOOR_TEMP''" "\<not> endswith k ''_TEMP''" "\<not> endswith k ''_RATE''" "\<not> endswith k ''_PRESSURE''" "\<not> endswith k ''_FAULT_CODE''" "k \<noteq> ''PARAM_ID_BOILER_OT_SLAVE_STATUS''" "k \<noteq> ''PARAM_ID_SYS_SOFT_VER''"
      using l by (auto dest: sensor_tags simp: last2_def)
    have r: "sensor_rule k" using wifi by (auto simp: sensor_rule_def)
    show ?thesis using wifi n r
      by (simp add: sensors_item_def claim_present [OF assms])
  next
    case fault
    then have l: "last2 k = ''ED''" by (auto dest: sensor_tags simp: last2_def)
    have n: "k \<noteq> ''PARAM_ID_BOILER_OUTDOOR_TEMP''" "\<not> endswith k ''_TEMP''" "\<not> endswith k ''_RATE''" "\<not> endswith k ''_PRESSURE''" "\<not> endswith k ''WIFI_SIGNAL''" "\<not> endswith k ''WIFI__SIGNAL''" "k \<noteq> ''PARAM_ID_BOILER_OT_SLAVE_STATUS''" "k \<noteq> ''PARAM_ID_SYS_SOFT_VER''"
      using l by (auto dest: sensor_tags simp: last2_def)
    have r: "sensor_rule k" using fault by (auto simp: sensor_rule_def)
    show ?thesis using fault n r
      by (simp add: sensors_item_def claim_present [OF assms])
  next
    case status
    then have l: "last2 k = ''SU''" by (auto dest: sensor_tags simp: last2_def)
    have n: "k \<noteq> ''PARAM_ID_BOILER_OUTDOOR_TEMP''" "\<not> endswith k ''_TEMP''" "\<not> endswith k ''_RATE''" "\<not> endswith k ''_PRESSURE''" "\<not> endswith k ''WIFI_SIGNAL''" "\<not> endswith k ''WIFI__SIGNAL''" "\<not> endswith k ''_FAULT_CODE''" "k \<noteq> ''PARAM_ID_SYS_SOFT_VER''"
      using l by (auto dest: sensor_tags simp: last2_def)
    have r: "sensor_rule k" using status by (auto simp: sensor_rule_def)
    show ?thesis using status n r assms
      by (simp add: sensors_item_def claim_present)
  next
    case ver
    then have l: "last2 k = ''RE''" by (auto dest: sensor_tags simp: last2_def)
    have n: "k \<noteq> ''PARAM_ID_BOILER_OUTDOOR_TEMP''" "\<not> endswith k ''_TEMP''" "\<not> endswith k ''_RATE''" "\<not> endswith k ''_PRESSURE''" "\<not> endswith k ''WIFI_SIGNAL''" "\<not> endswith k ''WIFI__SIGNAL''" "\<not> endswith k ''_FAULT_CODE''" "k \<noteq> ''PARAM_ID_BOILER_OT_SLAVE_STATUS''"
      using l by (auto dest: sensor_tags simp: last2_def)
    have r: "sensor_rule k" using ver by (auto simp: sensor_rule_def)
    show ?thesis using ver n r assms
      by (simp add: sensors_item_def claim_present)
  next
    case none
    then show ?thesis
      by (simp add: sensors_item_def sensor_rule_def)
  qed
qed

lemma distinct_drop_keys: "distinct (map fst m) \<Longrightarrow> distinct (map fst (drop_keys ks m))"
  by (simp add: keys_drop_keys)

lemma drop_keys_absent: "set ks \<inter> fst ` set m = {} \<Longrightarrow> drop_keys ks m = m"
  by (induction m) (auto simp: drop_keys_def)

lemma drop_keys_cong: "set a = set b \<Longrightarrow> drop_keys a m = drop_keys b m"
  by (simp add: drop_keys_def)

lemma for_items_claims:
  assumes step: "\<And>k d acc m. k \<in> fst ` set m \<Longrightarrow>
      \<exists>new. body (k, d) (acc, m) = Inr (acc @ new, if rule k then drop_keys [k] m else m)
        \<and> map keyf new = (if rule k then [k] else [])"
    and "distinct (map fst items)" and "fst ` set items \<subseteq> fst ` set m"
  shows "\<exists>new. for_items body items (acc, m) =
            Inr (acc @ new, drop_keys (filter rule (map fst items)) m)
          \<and> map keyf new = filter rule (map fst items)"
  using assms(2,3)
proof (induction items arbitrary: acc m)
  case Nil
  then show ?case by simp
next
  case (Cons item items)
  obtain k d where item: "item = (k, d)" by (cases item)
  from Cons.prems item have k: "k \<in> fst ` set m" and nk: "k \<notin> fst ` set items"
    and d: "distinct (map fst items)" and sub: "fst ` set items \<subseteq> fst ` set m"
    by auto
  from step [OF k, of d acc] obtain new1 where
    b: "body (k, d) (acc, m) = Inr (acc @ new1, if rule k then drop_keys [k] m else m)"
    and a1: "map keyf new1 = (if rule k then [k] else [])"
    by blast
  let ?m1 = "if rule k then drop_keys [k] m else m"
  from sub nk have "fst ` set items \<subseteq> fst ` set ?m1"
    by (auto simp: set_keys_drop_keys)
  from Cons.IH [OF d this, of "acc @ new1"] obtain new2 where
    f: "for_items body items (acc @ new1, ?m1) =
          Inr ((acc @ new1) @ new2, drop_keys (filter rule (map fst items)) ?m1)"
    and a2: "map keyf new2 = filter rule (map fst items)"
    by blast
  have "for_items body (item # items) (acc, m) =
          Inr (acc @ (new1 @ new2), drop_keys (filter rule (map fst (item # items))) m)"
    using b f item by (simp add: drop_keys_drop_keys)
  moreover have "map keyf (new1 @ new2) = filter rule (map fst (item # items))"
    using a1 a2 item by simp
  ultimately show ?case by blast
qed

lemma binary_sensors_item_step:
  assumes "k \<in> fst ` set m"
  shows "\<exists>new. binary_sensors_item (k, d) (acc, m) =
            Inr (acc @ new, if binary_sensor_rule k then drop_keys [k] m else m)
          \<and> map (fst \<circ> sd_data_point) new = (if binary_sensor_rule k then [k] else [])"
proof -
  have c: "\<And>mk. claim k mk (acc, m) = Inr (acc @ [mk (k, the (map_of m k))], drop_keys [k] m)"
    by (rule claim_present [OF assms])
  show ?thesis
    apply (simp only: binary_sensors_item_def prod.case c)
    apply (simp add: binary_sensor_rule_def)
    done
qed

lemma claims_from_Nil [simp]: "claims_from m [] m' = (m' = m)"
  by (auto simp: claims_from_def)

lemma claims_from_append:
  assumes "claims_from m a m1" and "claims_from m1 b m2"
  shows "claims_from m (a @ b) m2"
  using assms
  by (auto simp: claims_from_def drop_keys_drop_keys set_keys_drop_keys)

lemma claims_from_distinct:
  "claims_from m ks m' \<Longrightarrow> distinct (map fst m) \<Longrightarrow> distinct (map fst m')"
  by (simp add: claims_from_def distinct_drop_keys)

lemma claimable_exact: "k \<in> set exact_keys \<Longrightarrow> claimable k"
  by (simp add: claimable_def)

lemma claims_from_single:
  "k \<in> fst ` set m \<Longrightarrow> k \<in> set exact_keys \<Longrightarrow> claims_from m [k] (drop_keys [k] m)"
  by (simp add: claims_from_def claimable_def)

lemma map_of_present_ex: "(\<exists>y. map_of m k = Some y) = (k \<in> fst ` set m)"
  using map_of_present [of m k] by simp

lemma get_select_data_claims:
  "\<exists>ds m'. get_select_data m = Inr (ds, m')
     \<and> claims_from m (map (fst \<circ> sel_data_point) ds) m'"
  by (simp add: get_select_data_def map_of_present_ex claim_present claims_from_single
      exact_keys_def)

lemma get_numbers_data_claims:
  "\<exists>ds m'. get_numbers_data m = Inr (ds, m')
     \<and> claims_from m (map (fst \<circ> nd_data_point) ds) m'"
  by (simp add: get_numbers_data_def map_of_present_ex claim_present claims_from_single
      exact_keys_def)

lemma pop_after:
  assumes "k \<in> fst ` set m" and "k \<notin> set ks"
  shows "pop k (drop_keys ks m) = Inr ((k, the (map_of m k)), drop_keys (ks @ [k]) m)"
proof -
  from assms have "k \<in> fst ` set (drop_keys ks m)" by (simp add: set_keys_drop_keys)
  then show ?thesis
    using assms(2) by (simp add: pop_present map_of_drop_keys drop_keys_drop_keys)
qed

lemma contains_drop_keys: "contains k (drop_keys ks m) = (contains k m \<and> k \<notin> set ks)"
  by (auto simp: contains_def set_keys_drop_keys)

lemma claims_from_exact:
  assumes "set ks \<subseteq> fst ` set m" and "distinct ks" and "set ks \<subseteq> set exact_keys"
  shows "claims_from m ks (drop_keys ks m)"
  using assms by (auto simp: claims_from_def list_all_iff claimable_def)

lemma get_climate_data_claims:
  "\<exists>ds m'. get_climate_data m = Inr (ds, m')
     \<and> claims_from m (concat (map climate_keys ds)) m'"
proof (cases "list_all (\<lambda>k. contains k m) thermostat_keys")
  case True
  then have p: "''PARAM_ID_TH_CUR_ROOM_TEMP'' \<in> fst ` set m"
    "''PARAM_ID_TH_TRG_ROOM_TEMP'' \<in> fst ` set m" "''PARAM_ID_TH_WORK_MODE'' \<in> fst ` set m"
    by (simp_all add: thermostat_keys_def contains_def)
  have c: "claims_from m [''PARAM_ID_TH_CUR_ROOM_TEMP'', ''PARAM_ID_TH_TRG_ROOM_TEMP'',
      ''PARAM_ID_TH_WORK_MODE''] (drop_keys [''PARAM_ID_TH_CUR_ROOM_TEMP'',
      ''PARAM_ID_TH_TRG_ROOM_TEMP'', ''PARAM_ID_TH_WORK_MODE''] m)"
    by (rule claims_from_exact) (simp_all add: p exact_keys_def)
  show ?thesis
    using True c
    by (simp add: get_climate_data_def pop_present [OF p(1)] pop_after [OF p(2)]
        pop_after [OF p(3)] climate_keys_def)
next
  case False
  then show ?thesis by (simp add: get_climate_data_def)
qed

lemma claim_if_present:
  assumes "k \<in> set exact_keys" and "\<And>r. dp (mk r) = r"
  shows "\<exists>ds m'. (if map_of m k \<noteq> None then claim k mk (acc, m) else Inr (acc, m)) =
            Inr (acc @ ds, m')
          \<and> claims_from m (map (fst \<circ> dp) ds) m'"
proof (cases "k \<in> fst ` set m")
  case True
  then have "(if map_of m k \<noteq> None then claim k mk (acc, m) else Inr (acc, m)) =
      Inr (acc @ [mk (k, the (map_of m k))], drop_keys [k] m)"
    by (simp add: map_of_present_ex claim_present)
  moreover have "claims_from m (map (fst \<circ> dp) [mk (k, the (map_of m k))]) (drop_keys [k] m)"
    using True assms by (simp add: claims_from_single)
  ultimately show ?thesis by blast
next
  case False
  then have "(if map_of m k \<noteq> None then claim k mk (acc, m) else Inr (acc, m)) =
      Inr (acc @ [], m)"
    by (simp add: map_of_present_ex)
  moreover have "claims_from m (map (fst \<circ> dp) []) m" by simp
  ultimately show ?thesis by blast
qed

lemma get_switches_data_claims:
  "\<exists>ds m'. get_switches_data m = Inr (ds, m')
     \<and> claims_from m (map (fst \<circ> sw_data_point) ds) m'"
proof -
  let ?a = "''PARAM_ID_BOILER_DHW_PRO_EN''" and ?b = "''PARAM_ID_SYS_DST_ENABLE''"
  let ?mka = "\<lambda>r. \<lparr>sw_data_point = r, sw_name = ''Domestic Water Heating Program'',
                   sw_icon = Some ''mdi:home-clock'', sw_device_class = Some SWITCH\<rparr>"
  let ?mkb = "\<lambda>r. \<lparr>sw_data_point = r, sw_name = ''Auto Time Sync'',
                     sw_icon = Some ''mdi:clock'', sw_device_class = Some SWITCH\<rparr>"
  have e: "?a \<in> set exact_keys" "?b \<in> set exact_keys" by (simp_all add: exact_keys_def)
  from claim_if_present [OF e(1), of sw_data_point ?mka m "[]"] obtain ds1 m1 where
    1: "(if map_of m ?a \<noteq> None then claim ?a ?mka ([], m) else Inr ([], m)) = Inr (ds1, m1)"
    and c1: "claims_from m (map (fst \<circ> sw_data_point) ds1) m1"
    by auto
  from claim_if_present [OF e(2), of sw_data_point ?mkb m1 ds1] obtain ds2 m2 where
    2: "(if map_of m1 ?b \<noteq> None then claim ?b ?mkb (ds1, m1) else Inr (ds1, m1)) =
          Inr (ds1 @ ds2, m2)"
    and c2: "claims_from m1 (map (fst \<circ> sw_data_point) ds2) m2"
    by auto
  have "get_switches_data m = Inr (ds1 @ ds2, m2)"
    unfolding get_switches_data_def using 1 2 by simp
  moreover have "claims_from m (map (fst \<circ> sw_data_point) (ds1 @ ds2)) m2"
    using claims_from_append [OF c1 c2] by simp
  ultimately show ?thesis by blast
qed

lemma pop4:
  assumes "set [a, b, c, d] \<subseteq> fst ` set m" and "distinct [a, b, c, d]"
  shows "bind_result (pop a m) (\<lambda>(x1, m1).
         bind_result (pop b m1) (\<lambda>(x2, m2).
         bind_result (pop c m2) (\<lambda>(x3, m3).
         bind_result (pop d m3) (\<lambda>(x4, m4). Inr (f x1 x2 x3 x4, m4))))) =
         Inr (f (a, the (map_of m a)) (b, the (map_of m b)) (c, the (map_of m c))
                (d, the (map_of m d)), drop_keys [a, b, c, d] m)"
proof -
  have 1: "pop a m = Inr ((a, the (map_of m a)), drop_keys [a] m)"
    using assms by (simp add: pop_present)
  have 2: "pop b (drop_keys [a] m) = Inr ((b, the (map_of m b)), drop_keys [a, b] m)"
    using assms pop_after [of b m "[a]"] by auto
  have 3: "pop c (drop_keys [a, b] m) = Inr ((c, the (map_of m c)), drop_keys [a, b, c] m)"
    using assms pop_after [of c m "[a, b]"] by auto
  have 4: "pop d (drop_keys [a, b, c] m) =
      Inr ((d, the (map_of m d)), drop_keys [a, b, c, d] m)"
    using assms pop_after [of d m "[a, b, c]"] by auto
  show ?thesis by (simp add: 1 2 3 4)
qed

lemma get_water_heaters_claims:
  "\<exists>ds m'. get_water_heaters m = Inr (ds, m')
     \<and> claims_from m (concat (map water_heater_keys ds)) m'"
proof -
  let ?ch = "[''PARAM_ID_BOILER_CH_SET_RANGE_DOWN'', ''PARAM_ID_BOILER_CH_SET_RANGE_UP'',
     ''PARAM_ID_BOILER_CH_CUR_TEMP'', ''PARAM_ID_BOILER_CH_MAX_SETPOINT'']"
  let ?dhw = "[''PARAM_ID_BOILER_DHW_SET_RANGE_DOWN'', ''PARAM_ID_BOILER_DHW_SET_RANGE_UP'',
     ''PARAM_ID_BOILER_DHW_CUR_TEMP'', ''PARAM_ID_BOILER_DHW_TRG_TEMP'']"
  have ex: "set ?ch \<subseteq> set exact_keys" "set ?dhw \<subseteq> set exact_keys"
    by (simp_all add: exact_keys_def)
  have "\<exists>ds1 m1. (if list_all (\<lambda>k. contains k m) ch_keys then
          bind_result (pop ''PARAM_ID_BOILER_CH_SET_RANGE_DOWN'' m) (\<lambda>(min_temp, m1).
          bind_result (pop ''PARAM_ID_BOILER_CH_SET_RANGE_UP'' m1) (\<lambda>(max_temp, m2).
          bind_result (pop ''PARAM_ID_BOILER_CH_CUR_TEMP'' m2) (\<lambda>(current_temp, m3).
          bind_result (pop ''PARAM_ID_BOILER_CH_MAX_SETPOINT'' m3) (\<lambda>(target_temp, m4).
            Inr ([\<lparr>wh_name = ''Heating Water Heater'', wh_icon = Some ''mdi:radiator'',
                   wh_min_temp = min_temp, wh_max_temp = max_temp,
                   wh_current_temp = current_temp, wh_target_temp = target_temp,
                   wh_target_temp_step = 1, wh_temp_unit = CELSIUS\<rparr>], m4)))))
        else Inr ([], m)) = Inr (ds1, m1)
      \<and> claims_from m (concat (map water_heater_keys ds1)) m1"
  proof (cases "list_all (\<lambda>k. contains k m) ch_keys")
    case True
    then have p: "set ?ch \<subseteq> fst ` set m" by (simp add: ch_keys_def contains_def)
    have d: "distinct ?ch" by simp
    have "claims_from m ?ch (drop_keys ?ch m)"
      by (rule claims_from_exact [OF p d ex(1)])
    then show ?thesis using True
      by (simp add: pop4 [OF p d] water_heater_keys_def)
  next
    case False
    then show ?thesis by simp
  qed
  then obtain ds1 m1 where 1: "(if list_all (\<lambda>k. contains k m) ch_keys then
          bind_result (pop ''PARAM_ID_BOILER_CH_SET_RANGE_DOWN'' m) (\<lambda>(min_temp, m1).
          bind_result (pop ''PARAM_ID_BOILER_CH_SET_RANGE_UP'' m1) (\<lambda>(max_temp, m2).
          bind_result (pop ''PARAM_ID_BOILER_CH_CUR_TEMP'' m2) (\<lambda>(current_temp, m3).
          bind_result (pop ''PARAM_ID_BOILER_CH_MAX_SETPOINT'' m3) (\<lambda>(target_temp, m4).
            Inr ([\<lparr>wh_name = ''Heating Water Heater'', wh_icon = Some ''mdi:radiator'',
                   wh_min_temp = min_temp, wh_max_temp = max_temp,
                   wh_current_temp = current_temp, wh_target_temp = target_temp,
                   wh_target_temp_step = 1, wh_temp_unit = CELSIUS\<rparr>], m4)))))
        else Inr ([], m)) = Inr (ds1, m1)"
    and c1: "claims_from m (concat (map water_heater_keys ds1)) m1" by blast
  have "\<exists>ds2 m2. (if list_all (\<lambda>k. contains k m1) dhw_keys then
            bind_result (pop ''PARAM_ID_BOILER_DHW_SET_RANGE_DOWN'' m1) (\<lambda>(min_temp, m1).
            bind_result (pop ''PARAM_ID_BOILER_DHW_SET_RANGE_UP'' m1) (\<lambda>(max_temp, m2).
            bind_result (pop ''PARAM_ID_BOILER_DHW_CUR_TEMP'' m2) (\<lambda>(current_temp, m3).
            bind_result (pop ''PARAM_ID_BOILER_DHW_TRG_TEMP'' m3) (\<lambda>(target_temp, m4).
              Inr (ds1 @
                   [\<lparr>wh_name = ''Sanitary Water Heater'', wh_icon = Some ''mdi:faucet'',
                     wh_min_temp = min_temp, wh_max_temp = max_temp,
                     wh_current_temp = current_temp, wh_target_temp = target_temp,
                     wh_target_temp_step = 1, wh_temp_unit = CELSIUS\<rparr>], m4)))))
          else Inr (ds1, m1)) = Inr (ds1 @ ds2, m2)
      \<and> claims_from m1 (concat (map water_heater_keys ds2)) m2"
  proof (cases "list_all (\<lambda>k. contains k m1) dhw_keys")
    case True
    then have p: "set ?dhw \<subseteq> fst ` set m1" by (simp add: dhw_keys_def contains_def)
    have d: "distinct ?dhw" by simp
    have "claims_from m1 ?dhw (drop_keys ?dhw m1)"
      by (rule claims_from_exact [OF p d ex(2)])
    then show ?thesis using True
      by (simp add: pop4 [OF p d] water_heater_keys_def)
  next
    case False
    then show ?thesis by simp
  qed
  then obtain ds2 m2 where 2: "(if list_all (\<lambda>k. contains k m1) dhw_keys then
            bind_result (pop ''PARAM_ID_BOILER_DHW_SET_RANGE_DOWN'' m1) (\<lambda>(min_temp, m1).
            bind_result (pop ''PARAM_ID_BOILER_DHW_SET_RANGE_UP'' m1) (\<lambda>(max_temp, m2).
            bind_result (pop ''PARAM_ID_BOILER_DHW_CUR_TEMP'' m2) (\<lambda>(current_temp, m3).
            bind_result (pop ''PARAM_ID_BOILER_DHW_TRG_TEMP'' m3) (\<lambda>(target_temp, m4).
              Inr (ds1 @
                   [\<lparr>wh_name = ''Sanitary Water Heater'', wh_icon = Some ''mdi:faucet'',
                     wh_min_temp = min_temp, wh_max_temp = max_temp,
                     wh_current_temp = current_temp, wh_target_temp = target_temp,
                     wh_target_temp_step = 1, wh_temp_unit = CELSIUS\<rparr>], m4)))))
          else Inr (ds1, m1)) = Inr (ds1 @ ds2, m2)"
    and c2: "claims_from m1 (concat (map water_heater_keys ds2)) m2" by blast
  have "get_water_heaters m = Inr (ds1 @ ds2, m2)"
    unfolding get_water_heaters_def by (simp add: 1 2)
  moreover have "claims_from m (concat (map water_heater_keys (ds1 @ ds2))) m2"
    using claims_from_append [OF c1 c2] by simp
  ultimately show ?thesis by blast
qed

lemma get_sensors_data_result:
  assumes "distinct (map fst m)"
  shows "\<exists>pre rest. get_sensors_data m =
            Inr (pre @ rest, drop_keys (map (fst \<circ> sd_data_point) (pre @ rest)) m)
     \<and> pre = (if contains ''PARAM_ID_BOILER_CH_TRG_TEMP'' m
              then [measurement (''PARAM_ID_BOILER_CH_TRG_TEMP'',
                      the (map_of m ''PARAM_ID_BOILER_CH_TRG_TEMP''))
                      ''Heating Target Temperature'' ''mdi:thermometer'' TEMPERATURE CELSIUS]
              else [])
     \<and> map (fst \<circ> sd_data_point) rest =
         filter sensor_rule (map fst (drop_keys [''PARAM_ID_BOILER_CH_TRG_TEMP''] m))"
proof -
  let ?k = "''PARAM_ID_BOILER_CH_TRG_TEMP''"
  let ?mk = "\<lambda>r. measurement r ''Heating Target Temperature'' ''mdi:thermometer''
                    TEMPERATURE CELSIUS"
  define pre where "pre = (if contains ?k m then [?mk (?k, the (map_of m ?k))] else [])"
  define m1 where "m1 = drop_keys [?k] m"
  have 1: "(if map_of m ?k \<noteq> None then claim ?k ?mk ([], m) else Inr ([], m)) = Inr (pre, m1)"
  proof (cases "?k \<in> fst ` set m")
    case True
    then show ?thesis
      by (simp add: pre_def m1_def contains_def map_of_present_ex claim_present)
  next
    case False
    then have "drop_keys [?k] m = m"
      by (simp add: drop_keys_absent)
    with False show ?thesis
      by (simp add: pre_def m1_def contains_def map_of_present_ex)
  qed
  have d1: "distinct (map fst m1)" using assms by (simp add: m1_def distinct_drop_keys)
  from for_items_claims [where body = sensors_item and rule = sensor_rule
      and keyf = "fst \<circ> sd_data_point" and items = m1 and m = m1 and acc = pre,
      OF sensors_item_step d1 subset_refl]
  obtain rest where
    2: "for_items sensors_item m1 (pre, m1) =
          Inr (pre @ rest, drop_keys (filter sensor_rule (map fst m1)) m1)"
    and kr: "map (fst \<circ> sd_data_point) rest = filter sensor_rule (map fst m1)"
    by blast
  have pk: "drop_keys (map (fst \<circ> sd_data_point) pre) m = m1"
    by (simp add: pre_def m1_def contains_def drop_keys_absent)
  have "get_sensors_data m =
      Inr (pre @ rest, drop_keys (map (fst \<circ> sd_data_point) (pre @ rest)) m)"
    unfolding get_sensors_data_def
    using 1 2 kr pk by (simp add: drop_keys_drop_keys [symmetric])
  then show ?thesis using kr pre_def m1_def by blast
qed

lemma get_sensors_data_claims:
  assumes "distinct (map fst m)"
  shows "\<exists>ds m'. get_sensors_data m = Inr (ds, m')
     \<and> claims_from m (map (fst \<circ> sd_data_point) ds) m'"
proof -
  let ?k = "''PARAM_ID_BOILER_CH_TRG_TEMP''"
  let ?rs = "filter sensor_rule (map fst (drop_keys [?k] m))"
  from get_sensors_data_result [OF assms] obtain pre rest where
    g: "get_sensors_data m =
          Inr (pre @ rest, drop_keys (map (fst \<circ> sd_data_point) (pre @ rest)) m)"
    and p0: "pre = (if contains ?k m
              then [measurement (?k, the (map_of m ?k))
                      ''Heating Target Temperature'' ''mdi:thermometer'' TEMPERATURE CELSIUS]
              else [])"
    and r: "map (fst \<circ> sd_data_point) rest = ?rs"
    by blast
  have p: "map (fst \<circ> sd_data_point) pre = (if contains ?k m then [?k] else [])"
    by (simp add: p0)
  have ks: "map (fst \<circ> sd_data_point) (pre @ rest) = (if contains ?k m then [?k] else []) @ ?rs"
    by (simp only: map_append p r)
  have e: "?k \<in> set exact_keys" by (simp add: exact_keys_def)
  have s1: "set ?rs \<subseteq> fst ` set m" by (auto simp: keys_drop_keys)
  have s2: "?k \<notin> set ?rs" by (simp add: keys_drop_keys)
  have d: "distinct ?rs" using assms by (simp add: keys_drop_keys)
  have c: "list_all claimable ?rs" by (simp add: list_all_iff claimable_def)
  have ck: "claimable ?k" using e by (rule claimable_exact)
  have "claims_from m ((if contains ?k m then [?k] else []) @ ?rs)
          (drop_keys ((if contains ?k m then [?k] else []) @ ?rs) m)"
  proof (cases "contains ?k m")
    case True
    then have "?k \<in> fst ` set m" by (simp add: contains_def)
    with True s1 s2 d c ck show ?thesis
      unfolding claims_from_def by simp
  next
    case False
    with s1 d c show ?thesis
      unfolding claims_from_def by simp
  qed
  with g ks show ?thesis by simp
qed

lemma get_binary_sensors_data_result:
  assumes "distinct (map fst m)"
  shows "\<exists>ds. get_binary_sensors_data m =
            Inr (ds, drop_keys (filter binary_sensor_rule (map fst m)) m)
          \<and> map (fst \<circ> sd_data_point) ds = filter binary_sensor_rule (map fst m)"
proof -
  from for_items_claims [where body = binary_sensors_item and rule = binary_sensor_rule
      and keyf = "fst \<circ> sd_data_point" and items = m and m = m and acc = "[]",
      OF binary_sensors_item_step assms subset_refl]
  obtain ds where
    "for_items binary_sensors_item m ([], m) =
       Inr ([] @ ds, drop_keys (filter binary_sensor_rule (map fst m)) m)"
    "map (fst \<circ> sd_data_point) ds = filter binary_sensor_rule (map fst m)"
    by blast
  then show ?thesis unfolding get_binary_sensors_data_def by simp
qed

lemma get_binary_sensors_data_claims:
  assumes "distinct (map fst m)"
  shows "\<exists>ds m'. get_binary_sensors_data m = Inr (ds, m')
     \<and> claims_from m (map (fst \<circ> sd_data_point) ds) m'"
proof -
  let ?bs = "filter binary_sensor_rule (map fst m)"
  from get_binary_sensors_data_result [OF assms] obtain ds where
    1: "get_binary_sensors_data m = Inr (ds, drop_keys ?bs m)"
    and 2: "map (fst \<circ> sd_data_point) ds = ?bs"
    by blast
  have s1: "set ?bs \<subseteq> fst ` set m" by auto
  have d: "distinct ?bs" using assms by simp
  have c: "list_all claimable ?bs" by (simp add: list_all_iff claimable_def)
  have "claims_from m ?bs (drop_keys ?bs m)"
    using s1 d c unfolding claims_from_def by simp
  with 1 2 show ?thesis by simp
qed

lemma discard_loop:
  assumes "distinct ks" and "set ks \<subseteq> fst ` set m"
  shows "for_items (\<lambda>k m'. if p k then discard k m' else Inr m') ks m =
           Inr (drop_keys (filter p ks) m)"
  using assms
proof (induction ks arbitrary: m)
  case Nil
  then show ?case by simp
next
  case (Cons k ks)
  from Cons.prems have k: "k \<in> fst ` set m" and nk: "k \<notin> set ks" and d: "distinct ks"
    and sub: "set ks \<subseteq> fst ` set m" by auto
  show ?case
  proof (cases "p k")
    case True
    from sub nk have "set ks \<subseteq> fst ` set (drop_keys [k] m)"
      by (auto simp: set_keys_drop_keys)
    from Cons.IH [OF d this] True k show ?thesis
      by (simp add: discard_present drop_keys_drop_keys)
  next
    case False
    with Cons.IH [OF d sub] show ?thesis by simp
  qed
qed

lemma unsupported_keys_no_prefix:
  "k \<in> set unsupported_keys \<Longrightarrow> \<not> unsupported_prefix k"
  by (auto simp: unsupported_keys_def unsupported_prefix_def startswith_def)

lemma remove_unsupported_data_result:
  assumes "distinct (map fst m)"
  shows "remove_unsupported_data m =
    (if \<not> contains ''PARAM_ID_SYS_DEVICE_MODULE'' m
       then Inl (KeyError ''PARAM_ID_SYS_DEVICE_MODULE'')
     else if \<not> contains ''PARAM_ID_TH_DELETE_TH_ADDR'' m
       then Inl (KeyError ''PARAM_ID_TH_DELETE_TH_ADDR'')
     else Inr (drop_keys (unsupported_keys @ filter unsupported_prefix (map fst m)) m))"
proof -
  let ?a = "''PARAM_ID_SYS_DEVICE_MODULE''" and ?b = "''PARAM_ID_TH_DELETE_TH_ADDR''"
  have loop: "(\<lambda>k m'. if startswith k ''PARAM_ID_BOILER_DHW_PRO_''
                     \<or> startswith k ''PARAM_ID_TH_ROOM_PROG_DAY_''
                  then discard k m' else Inr m') =
      (\<lambda>k m'. if unsupported_prefix k then discard k m' else Inr m')"
    by (simp add: unsupported_prefix_def)
  show ?thesis
  proof (cases "contains ?a m")
    case False
    then show ?thesis
      by (simp add: remove_unsupported_data_def unsupported_keys_def contains_def
          discard_absent)
  next
    case a: True
    show ?thesis
    proof (cases "contains ?b m")
      case False
      then have "?b \<notin> fst ` set (drop_keys [?a] m)"
        by (simp add: contains_def set_keys_drop_keys)
      with a False show ?thesis
        by (simp add: remove_unsupported_data_def unsupported_keys_def contains_def
            discard_present discard_absent)
    next
      case b: True
      then have "?b \<in> fst ` set (drop_keys [?a] m)"
        by (simp add: contains_def set_keys_drop_keys)
      with a have 1: "for_items discard unsupported_keys m = Inr (drop_keys [?a, ?b] m)"
        by (simp add: unsupported_keys_def contains_def discard_present drop_keys_drop_keys)
      let ?m2 = "drop_keys [?a, ?b] m"
      have d2: "distinct (map fst ?m2)" using assms by (rule distinct_drop_keys)
      have 2: "for_items (\<lambda>k m'. if unsupported_prefix k then discard k m' else Inr m')
                 (map fst ?m2) ?m2 = Inr (drop_keys (filter unsupported_prefix (map fst ?m2)) ?m2)"
        by (rule discard_loop [OF d2]) simp
      have 3: "drop_keys (filter unsupported_prefix (map fst ?m2)) ?m2 =
            drop_keys (unsupported_keys @ filter unsupported_prefix (map fst m)) m"
        unfolding drop_keys_drop_keys
        by (rule drop_keys_cong) (auto simp: keys_drop_keys unsupported_keys_def)
      have "remove_unsupported_data m =
          Inr (drop_keys (filter unsupported_prefix (map fst ?m2)) ?m2)"
        unfolding remove_unsupported_data_def loop by (simp add: 1 2)
      then show ?thesis using a b by (simp add: 3)
    qed
  qed
qed

lemma unsupported_keys_not_claimable: "k \<in> set unsupported_keys \<Longrightarrow> \<not> claimable k"
  by (auto simp: unsupported_keys_def claimable_def exact_keys_def sensor_rule_def
      binary_sensor_rule_def endswith_code)

lemma group_passes_claims:
  assumes "distinct (map fst m)"
  shows "\<exists>c. group_passes m = Inr c
     \<and> claims_from m (concat (group_keys c)) (unknown_points c)"
proof -
  obtain wh m1 where 1: "get_water_heaters m = Inr (wh, m1)"
    and c1: "claims_from m (concat (map water_heater_keys wh)) m1"
    using get_water_heaters_claims [of m] by blast
  obtain cl m2 where 2: "get_climate_data m1 = Inr (cl, m2)"
    and c2: "claims_from m1 (concat (map climate_keys cl)) m2"
    using get_climate_data_claims [of m1] by blast
  obtain sel m3 where 3: "get_select_data m2 = Inr (sel, m3)"
    and c3: "claims_from m2 (map (fst \<circ> sel_data_point) sel) m3"
    using get_select_data_claims [of m2] by blast
  obtain sw m4 where 4: "get_switches_data m3 = Inr (sw, m4)"
    and c4: "claims_from m3 (map (fst \<circ> sw_data_point) sw) m4"
    using get_switches_data_claims [of m3] by blast
  obtain nu m5 where 5: "get_numbers_data m4 = Inr (nu, m5)"
    and c5: "claims_from m4 (map (fst \<circ> nd_data_point) nu) m5"
    using get_numbers_data_claims [of m4] by blast
  have d5: "distinct (map fst m5)"
    using assms c1 c2 c3 c4 c5 by (blast intro: claims_from_distinct)
  obtain se m6 where 6: "get_sensors_data m5 = Inr (se, m6)"
    and c6: "claims_from m5 (map (fst \<circ> sd_data_point) se) m6"
    using get_sensors_data_claims [OF d5] by blast
  have d6: "distinct (map fst m6)" using d5 c6 by (rule claims_from_distinct [rotated])
  obtain bs m7 where 7: "get_binary_sensors_data m6 = Inr (bs, m7)"
    and c7: "claims_from m6 (map (fst \<circ> sd_data_point) bs) m7"
    using get_binary_sensors_data_claims [OF d6] by blast
  let ?c = "\<lparr>water_heaters = wh, climate_data' = cl, select_data' = sel, switches_data = sw,
            numbers_data = nu, sensors_data = se, binary_sensors_data = bs,
            unknown_points = m7\<rparr>"
  have g: "group_passes m = Inr ?c"
    by (simp add: group_passes_def 1 2 3 4 5 6 7)
  have "claims_from m
      (concat (map water_heater_keys wh) @ concat (map climate_keys cl)
        @ map (fst \<circ> sel_data_point) sel @ map (fst \<circ> sw_data_point) sw
        @ map (fst \<circ> nd_data_point) nu @ map (fst \<circ> sd_data_point) se
        @ map (fst \<circ> sd_data_point) bs) m7"
    by (intro claims_from_append [OF c1] claims_from_append [OF c2] claims_from_append [OF c3]
        claims_from_append [OF c4] claims_from_append [OF c5] claims_from_append [OF c6] c7)
  then have "claims_from m (concat (group_keys ?c)) (unknown_points ?c)"
    by (simp add: group_keys_def)
  with g show ?thesis by blast
qed

lemma parse_data_points_result:
  assumes "distinct (map fst m)" and "group_passes m = Inr c"
  shows "parse_data_points m =
    (if \<not> contains ''PARAM_ID_SYS_DEVICE_MODULE'' m
       then Inl (KeyError ''PARAM_ID_SYS_DEVICE_MODULE'')
     else if \<not> contains ''PARAM_ID_TH_DELETE_TH_ADDR'' m
       then Inl (KeyError ''PARAM_ID_TH_DELETE_TH_ADDR'')
     else Inr (c\<lparr>unknown_points :=
            drop_keys (unsupported_keys @ filter unsupported_prefix (map fst (unknown_points c)))
              (unknown_points c)\<rparr>))"
proof -
  from group_passes_claims [OF assms(1)] assms(2)
  have cf: "claims_from m (concat (group_keys c)) (unknown_points c)" by simp
  then have d: "distinct (map fst (unknown_points c))"
    using assms(1) by (rule claims_from_distinct)
  have u: "unknown_points c = drop_keys (concat (group_keys c)) m"
    and cl: "list_all claimable (concat (group_keys c))"
    using cf by (simp_all add: claims_from_def)
  have k: "contains k (unknown_points c) = contains k m" if "k \<in> set unsupported_keys" for k
  proof -
    have "k \<notin> set (concat (group_keys c))"
      using cl unsupported_keys_not_claimable [OF that] unfolding list_all_iff by blast
    then show ?thesis unfolding u by (simp add: contains_drop_keys)
  qed
  have k1: "contains ''PARAM_ID_SYS_DEVICE_MODULE'' (unknown_points c) =
      contains ''PARAM_ID_SYS_DEVICE_MODULE'' m"
    and k2: "contains ''PARAM_ID_TH_DELETE_TH_ADDR'' (unknown_points c) =
      contains ''PARAM_ID_TH_DELETE_TH_ADDR'' m"
    by (rule k, simp add: unsupported_keys_def)+
  show ?thesis
    unfolding parse_data_points_def assms(2)
    by (simp add: remove_unsupported_data_result [OF d] k1 k2)
qed

lemma keys_points_of [simp]: "map fst (points_of ks) = ks"
  by (simp add: points_of_def comp_def)

lemma set_keys_points_of [simp]: "fst ` set (points_of ks) = set ks"
  by (simp add: points_of_def image_image)

lemma residual_keys_eq: "residual_keys c = map fst (unknown_points c)"
  by (simp add: residual_keys_def residual_sensors_def comp_def)

lemma group_keys_unknown_points [simp]: "group_keys (c\<lparr>unknown_points := m\<rparr>) = group_keys c"
  by (simp add: group_keys_def)

lemma parse_data_points_accepts:
  assumes "distinct (map fst m)" and "set unsupported_keys \<subseteq> fst ` set m"
  shows "\<exists>g. group_passes m = Inr g
    \<and> claims_from m (concat (group_keys g)) (unknown_points g)
    \<and> parse_data_points m = Inr (g\<lparr>unknown_points :=
         drop_keys (unsupported_keys @ filter unsupported_prefix (map fst (unknown_points g)))
           (unknown_points g)\<rparr>)"
proof -
  from group_passes_claims [OF assms(1)] obtain g where g: "group_passes m = Inr g"
    and cf: "claims_from m (concat (group_keys g)) (unknown_points g)" by blast
  have "contains ''PARAM_ID_SYS_DEVICE_MODULE'' m" "contains ''PARAM_ID_TH_DELETE_TH_ADDR'' m"
    using assms(2) by (simp_all add: unsupported_keys_def contains_def)
  then show ?thesis using parse_data_points_result [OF assms(1) g] g cf by simp
qed

lemma list_all_contains: "list_all (\<lambda>k. contains k m) ks = (set ks \<subseteq> fst ` set m)"
  by (auto simp: list_all_iff contains_def)

lemma parse_data_points_buckets:
  assumes "distinct (map fst dps)" and "set unsupported_keys \<subseteq> fst ` set dps"
  shows "\<exists>g c. group_passes dps = Inr g \<and> parse_data_points dps = Inr c
    \<and> group_keys c = group_keys g
    \<and> set (concat (group_keys g)) \<subseteq> fst ` set dps
    \<and> distinct (concat (group_keys g))
    \<and> list_all claimable (concat (group_keys g))
    \<and> map fst (unknown_points g) =
        filter (\<lambda>k. k \<notin> set (concat (group_keys g))) (map fst dps)
    \<and> residual_keys c =
        filter (\<lambda>k. k \<notin> set unsupported_keys \<and> \<not> unsupported_prefix k)
          (map fst (unknown_points g))"
proof -
  from parse_data_points_accepts [OF assms] obtain g where g: "group_passes dps = Inr g"
    and cf: "claims_from dps (concat (group_keys g)) (unknown_points g)"
    and p: "parse_data_points dps = Inr (g\<lparr>unknown_points :=
         drop_keys (unsupported_keys @ filter unsupported_prefix (map fst (unknown_points g)))
           (unknown_points g)\<rparr>)"
    by blast
  let ?c = "g\<lparr>unknown_points :=
         drop_keys (unsupported_keys @ filter unsupported_prefix (map fst (unknown_points g)))
           (unknown_points g)\<rparr>"
  have u: "map fst (unknown_points g) =
        filter (\<lambda>k. k \<notin> set (concat (group_keys g))) (map fst dps)"
    using cf by (simp add: claims_from_def keys_drop_keys)
  have r: "residual_keys ?c =
        filter (\<lambda>k. k \<notin> set unsupported_keys \<and> \<not> unsupported_prefix k)
          (map fst (unknown_points g))"
    by (auto simp: residual_keys_eq keys_drop_keys intro: filter_cong)
  show ?thesis
    using g p cf u r unfolding claims_from_def by (intro exI [of _ g] exI [of _ ?c]) simp
qed

lemma group_passes_pruned_points:
  "map_sum id (\<lambda>g. (concat (group_keys g), map fst (unknown_points g)))
     (group_passes pruned_points)
   = Inr ([], unsupported_keys @ [''PARAM_ID_BOILER_DHW_PRO_1'', ''FOO''])"
  by code_simp

lemma parse_data_points_pruned_points:
  "map_sum id (\<lambda>c. (concat (group_keys c), residual_keys c)) (parse_data_points pruned_points)
   = Inr ([], [''FOO''])"
  by code_simp

lemma pruned_points_hyps:
  "distinct (map fst pruned_points)" "set unsupported_keys \<subseteq> fst ` set pruned_points"
  by (simp_all add: pruned_points_def unsupported_keys_def)

lemma thermostat_points_hyps:
  "distinct (map fst thermostat_points)" "set unsupported_keys \<subseteq> fst ` set thermostat_points"
  by (simp_all add: thermostat_points_def unsupported_keys_def thermostat_keys_def)

section \<open>Classification: theorems\<close>

text \<open>
  C2, as stated, fails. On a device with the two unsupported keys, the key
  \<^verbatim>\<open>PARAM_ID_BOILER_DHW_PRO_1\<close> and the key \<^verbatim>\<open>FOO\<close>, classification succeeds with no key
  claimed by a group and \<^verbatim>\<open>FOO\<close> as the only residual key: the key
  \<^verbatim>\<open>PARAM_ID_BOILER_DHW_PRO_1\<close> of the input is in none of the three sets.
\<close>

theorem parse_data_points_partition_counterexample:
  "map_sum id (\<lambda>c. (concat (group_keys c), residual_keys c)) (parse_data_points pruned_points)
     = Inr ([], [''FOO''])
   \<and> ''PARAM_ID_BOILER_DHW_PRO_1'' \<in> fst ` set pruned_points
   \<and> ''PARAM_ID_BOILER_DHW_PRO_1'' \<notin> set [] \<union> set [''FOO''] \<union> set unsupported_keys"
  by (simp add: parse_data_points_pruned_points)
     (simp add: pruned_points_def unsupported_keys_def)

text \<open>
  C2, amended. Classification accepts a dictionary exactly when it holds the two
  unsupported keys (the other case is C7). Then the keys of the input are the keys
  claimed by the seven groups, the residual keys, the two unsupported keys and a fourth
  set, the keys with an unsupported prefix that no group claimed. No key is claimed
  twice, by two groups or by one, and no claimed key is residual; the two unsupported
  keys are neither claimed nor residual, and no residual key has an unsupported prefix.
\<close>

theorem parse_data_points_partition:
  assumes "distinct (map fst dps)" and "set unsupported_keys \<subseteq> fst ` set dps"
  shows "\<exists>c. parse_data_points dps = Inr c
    \<and> fst ` set dps =
        set (concat (group_keys c)) \<union> set (residual_keys c) \<union> set unsupported_keys
        \<union> {k \<in> fst ` set dps. unsupported_prefix k \<and> k \<notin> set (concat (group_keys c))}
    \<and> distinct (concat (group_keys c) @ residual_keys c)
    \<and> set (concat (group_keys c) @ residual_keys c) \<inter> set unsupported_keys = {}
    \<and> (\<forall>k \<in> set (residual_keys c). \<not> unsupported_prefix k)"
proof -
  from parse_data_points_buckets [OF assms] obtain g c where
    g: "group_passes dps = Inr g" and c: "parse_data_points dps = Inr c"
    and gk: "group_keys c = group_keys g"
    and sub: "set (concat (group_keys g)) \<subseteq> fst ` set dps"
    and d: "distinct (concat (group_keys g))"
    and cl: "list_all claimable (concat (group_keys g))"
    and u: "map fst (unknown_points g) =
        filter (\<lambda>k. k \<notin> set (concat (group_keys g))) (map fst dps)"
    and r: "residual_keys c =
        filter (\<lambda>k. k \<notin> set unsupported_keys \<and> \<not> unsupported_prefix k)
          (map fst (unknown_points g))"
    by blast
  let ?G = "concat (group_keys g)"
  have r': "residual_keys c = filter (\<lambda>k. k \<notin> set ?G \<and> k \<notin> set unsupported_keys
      \<and> \<not> unsupported_prefix k) (map fst dps)"
    unfolding r u by (auto intro: filter_cong)
  have nu: "set ?G \<inter> set unsupported_keys = {}"
    using cl unsupported_keys_not_claimable unfolding list_all_iff by blast
  have 1: "fst ` set dps = set ?G \<union> set (residual_keys c) \<union> set unsupported_keys
        \<union> {k \<in> fst ` set dps. unsupported_prefix k \<and> k \<notin> set ?G}"
    unfolding r' using sub assms(2) by auto
  have 2: "distinct (?G @ residual_keys c)"
    unfolding r' using d assms(1) by auto
  have 3: "set (?G @ residual_keys c) \<inter> set unsupported_keys = {}"
    unfolding r' using nu by auto
  have 4: "\<forall>k \<in> set (residual_keys c). \<not> unsupported_prefix k"
    unfolding r' by simp
  show ?thesis
    by (intro exI [of _ c] conjI c 1 [folded gk] 2 [folded gk] 3 [folded gk] 4)
qed

theorem parse_data_points_partition_witness:
  "distinct (map fst pruned_points) \<and> set unsupported_keys \<subseteq> fst ` set pruned_points
   \<and> (\<exists>c. parse_data_points pruned_points = Inr c
        \<and> concat (group_keys c) = [] \<and> residual_keys c = [''FOO'']
        \<and> fst ` set pruned_points =
            set (concat (group_keys c)) \<union> set (residual_keys c) \<union> set unsupported_keys
            \<union> {k \<in> fst ` set pruned_points.
                 unsupported_prefix k \<and> k \<notin> set (concat (group_keys c))}
        \<and> distinct (concat (group_keys c) @ residual_keys c))"
proof -
  from parse_data_points_partition [OF pruned_points_hyps] obtain c where
    c: "parse_data_points pruned_points = Inr c"
    and 1: "fst ` set pruned_points =
        set (concat (group_keys c)) \<union> set (residual_keys c) \<union> set unsupported_keys
        \<union> {k \<in> fst ` set pruned_points.
             unsupported_prefix k \<and> k \<notin> set (concat (group_keys c))}"
    and 2: "distinct (concat (group_keys c) @ residual_keys c)"
    by blast
  have 3: "concat (group_keys c) = [] \<and> residual_keys c = [''FOO'']"
    using parse_data_points_pruned_points by (simp add: c)
  show ?thesis
    by (intro conjI exI [of _ c] pruned_points_hyps c 1 2 3 [THEN conjunct1] 3 [THEN conjunct2])
qed

text \<open>
  C3, as stated, fails: the two unsupported keys are removed after the group passes, not
  before. On a device with the two keys and the three keys of a thermostat, the seven
  passes have run and built the thermostat, and the working dictionary still holds the
  two keys.
\<close>

theorem group_passes_keep_unsupported_keys_counterexample:
  "map_sum id (\<lambda>g. (map cl_name (climate_data' g), map fst (unknown_points g)))
     (group_passes thermostat_points)
   = Inr ([''Thermostat''], unsupported_keys)"
  by code_simp

text \<open>
  C3, amended. The seven group passes always return; none of them claims an unsupported
  key, so such a key is in the working dictionary after the passes exactly when it is in
  the input. \<^verbatim>\<open>remove_unsupported_data\<close>, the last step, removes it: whenever classification
  succeeds, the groups are those of the passes and the key is no longer in the working
  dictionary.
\<close>

theorem unsupported_keys_removed_last:
  assumes "distinct (map fst dps)" and "k \<in> set unsupported_keys"
  shows "\<exists>g. group_passes dps = Inr g
     \<and> k \<notin> set (concat (group_keys g))
     \<and> contains k (unknown_points g) = contains k dps
     \<and> (\<forall>c. parse_data_points dps = Inr c \<longrightarrow>
           group_keys c = group_keys g \<and> \<not> contains k (unknown_points c))"
proof -
  from group_passes_claims [OF assms(1)] obtain g where g: "group_passes dps = Inr g"
    and cf: "claims_from dps (concat (group_keys g)) (unknown_points g)" by blast
  have u: "unknown_points g = drop_keys (concat (group_keys g)) dps"
    and cl: "list_all claimable (concat (group_keys g))"
    using cf by (simp_all add: claims_from_def)
  have nk: "k \<notin> set (concat (group_keys g))"
    using cl unsupported_keys_not_claimable [OF assms(2)] unfolding list_all_iff by blast
  have ck: "contains k (unknown_points g) = contains k dps"
    unfolding u using nk by (simp add: contains_drop_keys)
  have "group_keys c = group_keys g \<and> \<not> contains k (unknown_points c)"
    if "parse_data_points dps = Inr c" for c
    using that assms(2) parse_data_points_result [OF assms(1) g]
    by (auto simp: contains_drop_keys split: if_splits)
  then show ?thesis using g nk ck by blast
qed

theorem unsupported_keys_removed_last_witness:
  "distinct (map fst thermostat_points)
   \<and> ''PARAM_ID_SYS_DEVICE_MODULE'' \<in> set unsupported_keys
   \<and> (\<exists>g. group_passes thermostat_points = Inr g
        \<and> ''PARAM_ID_SYS_DEVICE_MODULE'' \<notin> set (concat (group_keys g))
        \<and> contains ''PARAM_ID_SYS_DEVICE_MODULE'' (unknown_points g))"
proof -
  have k: "''PARAM_ID_SYS_DEVICE_MODULE'' \<in> set unsupported_keys"
    by (simp add: unsupported_keys_def)
  have "contains ''PARAM_ID_SYS_DEVICE_MODULE'' thermostat_points"
    by (simp add: contains_def thermostat_points_def unsupported_keys_def)
  then show ?thesis
    using unsupported_keys_removed_last [OF thermostat_points_hyps(1) k]
      thermostat_points_hyps(1) k by auto
qed

text \<open>
  C7. When one of the two unsupported keys is absent from the input, classification
  raises \<^verbatim>\<open>KeyError\<close> for the first absent one, in the order in which
  \<^verbatim>\<open>remove_unsupported_data\<close> pops them.
\<close>

theorem parse_data_points_missing_key:
  assumes "distinct (map fst dps)"
    and "\<not> contains ''PARAM_ID_SYS_DEVICE_MODULE'' dps
         \<or> \<not> contains ''PARAM_ID_TH_DELETE_TH_ADDR'' dps"
  shows "parse_data_points dps =
           Inl (KeyError (if contains ''PARAM_ID_SYS_DEVICE_MODULE'' dps
                          then ''PARAM_ID_TH_DELETE_TH_ADDR''
                          else ''PARAM_ID_SYS_DEVICE_MODULE''))"
proof -
  from group_passes_claims [OF assms(1)] obtain g where g: "group_passes dps = Inr g" by blast
  show ?thesis using parse_data_points_result [OF assms(1) g] assms(2) by auto
qed

theorem parse_data_points_missing_key_witness:
  "distinct (map fst (points_of [''PARAM_ID_SYS_DEVICE_MODULE'', ''PARAM_ID_BOILER_FLOW_RATE'']))
   \<and> \<not> contains ''PARAM_ID_TH_DELETE_TH_ADDR''
         (points_of [''PARAM_ID_SYS_DEVICE_MODULE'', ''PARAM_ID_BOILER_FLOW_RATE''])
   \<and> parse_data_points (points_of [''PARAM_ID_SYS_DEVICE_MODULE'', ''PARAM_ID_BOILER_FLOW_RATE''])
       = Inl (KeyError ''PARAM_ID_TH_DELETE_TH_ADDR'')"
  using parse_data_points_missing_key
    [of "points_of [''PARAM_ID_SYS_DEVICE_MODULE'', ''PARAM_ID_BOILER_FLOW_RATE'']"]
  by (simp add: contains_def)

text \<open>
  C8. When the dictionary holds the five heating keys and not all of the four sanitary
  keys, \<^verbatim>\<open>get_water_heaters\<close> returns one entry, named Heating Water Heater, and pops
  four of the five keys; when it holds all nine keys it returns two entries, the second
  named Sanitary Water Heater, and pops eight keys.
\<close>

theorem get_water_heaters_entries:
  "(set ch_keys \<subseteq> fst ` set dps \<and> \<not> set dhw_keys \<subseteq> fst ` set dps \<longrightarrow>
      (\<exists>w. get_water_heaters dps =
              Inr ([w], drop_keys [''PARAM_ID_BOILER_CH_SET_RANGE_DOWN'',
                     ''PARAM_ID_BOILER_CH_SET_RANGE_UP'', ''PARAM_ID_BOILER_CH_CUR_TEMP'',
                     ''PARAM_ID_BOILER_CH_MAX_SETPOINT''] dps)
         \<and> wh_name w = ''Heating Water Heater''))
   \<and> (set ch_keys \<union> set dhw_keys \<subseteq> fst ` set dps \<longrightarrow>
      (\<exists>w1 w2. get_water_heaters dps =
              Inr ([w1, w2], drop_keys [''PARAM_ID_BOILER_CH_SET_RANGE_DOWN'',
                     ''PARAM_ID_BOILER_CH_SET_RANGE_UP'', ''PARAM_ID_BOILER_CH_CUR_TEMP'',
                     ''PARAM_ID_BOILER_CH_MAX_SETPOINT'', ''PARAM_ID_BOILER_DHW_SET_RANGE_DOWN'',
                     ''PARAM_ID_BOILER_DHW_SET_RANGE_UP'', ''PARAM_ID_BOILER_DHW_CUR_TEMP'',
                     ''PARAM_ID_BOILER_DHW_TRG_TEMP''] dps)
         \<and> wh_name w1 = ''Heating Water Heater'' \<and> wh_name w2 = ''Sanitary Water Heater''))"
proof -
  let ?ch = "[''PARAM_ID_BOILER_CH_SET_RANGE_DOWN'', ''PARAM_ID_BOILER_CH_SET_RANGE_UP'',
     ''PARAM_ID_BOILER_CH_CUR_TEMP'', ''PARAM_ID_BOILER_CH_MAX_SETPOINT'']"
  let ?dhw = "[''PARAM_ID_BOILER_DHW_SET_RANGE_DOWN'', ''PARAM_ID_BOILER_DHW_SET_RANGE_UP'',
     ''PARAM_ID_BOILER_DHW_CUR_TEMP'', ''PARAM_ID_BOILER_DHW_TRG_TEMP'']"
  have dch: "distinct ?ch" and ddhw: "distinct ?dhw" by simp_all
  have sd: "set dhw_keys = set ?dhw" by (auto simp: dhw_keys_def)
  have after: "(set dhw_keys \<subseteq> fst ` set (drop_keys ?ch dps)) = (set dhw_keys \<subseteq> fst ` set dps)"
    by (auto simp: set_keys_drop_keys dhw_keys_def)
  have one: "\<exists>w. get_water_heaters dps = Inr ([w], drop_keys ?ch dps)
      \<and> wh_name w = ''Heating Water Heater''"
    if a: "set ch_keys \<subseteq> fst ` set dps" and b: "\<not> set dhw_keys \<subseteq> fst ` set dps"
  proof -
    have p: "set ?ch \<subseteq> fst ` set dps" using a by (simp add: ch_keys_def)
    show ?thesis
      unfolding get_water_heaters_def
      by (simp add: list_all_contains a b after pop4 [OF p dch])
  qed
  have two: "\<exists>w1 w2. get_water_heaters dps = Inr ([w1, w2], drop_keys (?ch @ ?dhw) dps)
      \<and> wh_name w1 = ''Heating Water Heater'' \<and> wh_name w2 = ''Sanitary Water Heater''"
    if a: "set ch_keys \<subseteq> fst ` set dps" and b: "set dhw_keys \<subseteq> fst ` set dps"
  proof -
    have p: "set ?ch \<subseteq> fst ` set dps" using a by (simp add: ch_keys_def)
    have q: "set ?dhw \<subseteq> fst ` set (drop_keys ?ch dps)"
      using b after unfolding sd by simp
    show ?thesis
      unfolding get_water_heaters_def
      by (simp add: list_all_contains a b after pop4 [OF p dch] pop4 [OF q ddhw]
          drop_keys_drop_keys)
  qed
  show ?thesis using one two by simp
qed

theorem get_water_heaters_entries_witness:
  "(set ch_keys \<subseteq> fst ` set (points_of ch_keys)
     \<and> \<not> set dhw_keys \<subseteq> fst ` set (points_of ch_keys))
   \<and> (\<exists>w. get_water_heaters (points_of ch_keys) =
              Inr ([w], points_of [''PARAM_ID_BOILER_CH_TRG_TEMP''])
         \<and> wh_name w = ''Heating Water Heater'')
   \<and> set ch_keys \<union> set dhw_keys \<subseteq> fst ` set (points_of (ch_keys @ dhw_keys))
   \<and> (\<exists>w1 w2. get_water_heaters (points_of (ch_keys @ dhw_keys)) =
              Inr ([w1, w2], points_of [''PARAM_ID_BOILER_CH_TRG_TEMP''])
         \<and> wh_name w1 = ''Heating Water Heater'' \<and> wh_name w2 = ''Sanitary Water Heater'')"
proof -
  have 1: "set ch_keys \<subseteq> fst ` set (points_of ch_keys)
     \<and> \<not> set dhw_keys \<subseteq> fst ` set (points_of ch_keys)"
    by (simp add: ch_keys_def dhw_keys_def)
  have 2: "set ch_keys \<union> set dhw_keys \<subseteq> fst ` set (points_of (ch_keys @ dhw_keys))"
    by simp
  have 3: "drop_keys [''PARAM_ID_BOILER_CH_SET_RANGE_DOWN'',
                     ''PARAM_ID_BOILER_CH_SET_RANGE_UP'', ''PARAM_ID_BOILER_CH_CUR_TEMP'',
                     ''PARAM_ID_BOILER_CH_MAX_SETPOINT''] (points_of ch_keys)
      = points_of [''PARAM_ID_BOILER_CH_TRG_TEMP'']"
    by (simp add: drop_keys_def points_of_def ch_keys_def)
  have 4: "drop_keys [''PARAM_ID_BOILER_CH_SET_RANGE_DOWN'',
                     ''PARAM_ID_BOILER_CH_SET_RANGE_UP'', ''PARAM_ID_BOILER_CH_CUR_TEMP'',
                     ''PARAM_ID_BOILER_CH_MAX_SETPOINT'', ''PARAM_ID_BOILER_DHW_SET_RANGE_DOWN'',
                     ''PARAM_ID_BOILER_DHW_SET_RANGE_UP'', ''PARAM_ID_BOILER_DHW_CUR_TEMP'',
                     ''PARAM_ID_BOILER_DHW_TRG_TEMP''] (points_of (ch_keys @ dhw_keys))
      = points_of [''PARAM_ID_BOILER_CH_TRG_TEMP'']"
    by (simp add: drop_keys_def points_of_def ch_keys_def dhw_keys_def)
  show ?thesis
    using get_water_heaters_entries [of "points_of ch_keys"]
      get_water_heaters_entries [of "points_of (ch_keys @ dhw_keys)"] 1 2
    by (simp only: 3 4) simp
qed

text \<open>
  C9. When the key \<^verbatim>\<open>PARAM_ID_BOILER_CH_TRG_TEMP\<close> is in the dictionary on which
  \<^verbatim>\<open>get_sensors_data\<close> runs, the pass returns, exactly one of its sensors references the
  key, it is the sensor Heating Target Temperature of the rule that names the key, and
  the key has left the dictionary.
\<close>

theorem get_sensors_data_target_temp_once:
  assumes "distinct (map fst m)" and "contains ''PARAM_ID_BOILER_CH_TRG_TEMP'' m"
  shows "\<exists>ds m'. get_sensors_data m = Inr (ds, m')
     \<and> filter (\<lambda>s. fst (sd_data_point s) = ''PARAM_ID_BOILER_CH_TRG_TEMP'') ds =
         [measurement (''PARAM_ID_BOILER_CH_TRG_TEMP'',
                       the (map_of m ''PARAM_ID_BOILER_CH_TRG_TEMP''))
            ''Heating Target Temperature'' ''mdi:thermometer'' TEMPERATURE CELSIUS]
     \<and> \<not> contains ''PARAM_ID_BOILER_CH_TRG_TEMP'' m'"
proof -
  let ?k = "''PARAM_ID_BOILER_CH_TRG_TEMP''"
  let ?s = "measurement (?k, the (map_of m ?k))
            ''Heating Target Temperature'' ''mdi:thermometer'' TEMPERATURE CELSIUS"
  from get_sensors_data_result [OF assms(1)] assms(2) obtain rest where
    g: "get_sensors_data m =
          Inr ([?s] @ rest, drop_keys (map (fst \<circ> sd_data_point) ([?s] @ rest)) m)"
    and r: "map (fst \<circ> sd_data_point) rest = filter sensor_rule (map fst (drop_keys [?k] m))"
    by auto
  have "?k \<notin> set (map (fst \<circ> sd_data_point) rest)"
    unfolding r by (simp add: keys_drop_keys)
  then have "\<forall>s \<in> set rest. fst (sd_data_point s) \<noteq> ?k" by force
  then have f: "filter (\<lambda>s. fst (sd_data_point s) = ?k) rest = []"
    by (simp add: filter_empty_conv)
  have "\<not> contains ?k (drop_keys (map (fst \<circ> sd_data_point) ([?s] @ rest)) m)"
    by (simp add: contains_drop_keys)
  with g f show ?thesis by simp
qed

theorem get_sensors_data_target_temp_once_witness:
  "distinct (map fst (points_of [''PARAM_ID_BOILER_CH_TRG_TEMP'', ''PARAM_ID_BOILER_RET_TEMP'']))
   \<and> contains ''PARAM_ID_BOILER_CH_TRG_TEMP''
        (points_of [''PARAM_ID_BOILER_CH_TRG_TEMP'', ''PARAM_ID_BOILER_RET_TEMP''])
   \<and> (\<exists>ds m'. get_sensors_data
          (points_of [''PARAM_ID_BOILER_CH_TRG_TEMP'', ''PARAM_ID_BOILER_RET_TEMP'']) = Inr (ds, m')
        \<and> map sd_name (filter (\<lambda>s. fst (sd_data_point s) = ''PARAM_ID_BOILER_CH_TRG_TEMP'') ds)
            = [''Heating Target Temperature''])"
proof -
  let ?m = "points_of [''PARAM_ID_BOILER_CH_TRG_TEMP'', ''PARAM_ID_BOILER_RET_TEMP'']"
  have 1: "distinct (map fst ?m)" by simp
  have 2: "contains ''PARAM_ID_BOILER_CH_TRG_TEMP'' ?m" by (simp add: contains_def)
  from get_sensors_data_target_temp_once [OF 1 2] obtain ds m' where
    3: "get_sensors_data ?m = Inr (ds, m')
     \<and> map sd_name (filter (\<lambda>s. fst (sd_data_point s) = ''PARAM_ID_BOILER_CH_TRG_TEMP'') ds)
       = [''Heating Target Temperature'']"
    by (auto simp: measurement_def SensorData_def)
  show ?thesis
    by (intro conjI exI [of _ ds] exI [of _ m'] 1 2 3 [THEN conjunct1] 3 [THEN conjunct2])
qed

text \<open>
  C10. On a dictionary that classification accepts, every key that the seven passes
  leave and that starts with \<^verbatim>\<open>PARAM_ID_BOILER_DHW_PRO_\<close> or \<^verbatim>\<open>PARAM_ID_TH_ROOM_PROG_DAY_\<close>
  is neither claimed by a group nor a residual key: the residual keys are the keys left
  by the passes without the two unsupported keys and the keys with such a prefix.
\<close>

theorem parse_data_points_drops_prefixed:
  assumes "distinct (map fst dps)" and "set unsupported_keys \<subseteq> fst ` set dps"
  shows "\<exists>g c. group_passes dps = Inr g \<and> parse_data_points dps = Inr c
     \<and> (\<forall>k \<in> fst ` set (unknown_points g). unsupported_prefix k \<longrightarrow>
          k \<notin> set (concat (group_keys c)) \<and> k \<notin> set (residual_keys c))
     \<and> residual_keys c =
         filter (\<lambda>k. k \<notin> set unsupported_keys \<and> \<not> unsupported_prefix k)
           (map fst (unknown_points g))"
proof -
  from parse_data_points_buckets [OF assms] obtain g c where
    g: "group_passes dps = Inr g" and c: "parse_data_points dps = Inr c"
    and gk: "group_keys c = group_keys g"
    and u: "map fst (unknown_points g) =
        filter (\<lambda>k. k \<notin> set (concat (group_keys g))) (map fst dps)"
    and r: "residual_keys c =
        filter (\<lambda>k. k \<notin> set unsupported_keys \<and> \<not> unsupported_prefix k)
          (map fst (unknown_points g))"
    by blast
  have "fst ` set (unknown_points g) = set (map fst (unknown_points g))" by simp
  then have "\<forall>k \<in> fst ` set (unknown_points g). k \<notin> set (concat (group_keys c))"
    unfolding u gk by simp
  moreover have "\<forall>k \<in> fst ` set (unknown_points g). unsupported_prefix k \<longrightarrow>
      k \<notin> set (residual_keys c)"
    unfolding r by simp
  ultimately show ?thesis using g c r by blast
qed

theorem parse_data_points_drops_prefixed_witness:
  "distinct (map fst pruned_points) \<and> set unsupported_keys \<subseteq> fst ` set pruned_points
   \<and> (\<exists>g c. group_passes pruned_points = Inr g \<and> parse_data_points pruned_points = Inr c
        \<and> map fst (unknown_points g) = unsupported_keys @ [''PARAM_ID_BOILER_DHW_PRO_1'', ''FOO'']
        \<and> concat (group_keys c) = []
        \<and> residual_keys c = [''FOO''])"
proof -
  from parse_data_points_drops_prefixed [OF pruned_points_hyps] obtain g c where
    g: "group_passes pruned_points = Inr g" and c: "parse_data_points pruned_points = Inr c"
    by blast
  have "map fst (unknown_points g) = unsupported_keys @ [''PARAM_ID_BOILER_DHW_PRO_1'', ''FOO'']"
    using group_passes_pruned_points by (simp add: g)
  moreover have "concat (group_keys c) = [] \<and> residual_keys c = [''FOO'']"
    using parse_data_points_pruned_points by (simp add: c)
  ultimately show ?thesis using g c pruned_points_hyps by blast
qed

end
